theory Spec2Isabelle
  imports Main "HOL-Library.Word"
begin

section \<open>Python values and exceptions\<close>

text \<open>
  The two Lambda functions of the repository work on JSON-shaped Python values: the
  CloudFormation event, the Boto3 response and the template fragment. A Python \<open>dict\<close> keeps
  its insertion order, so it is an association list (keys are strings, as JSON has them); a
  value read from JSON never repeats a key.

  Strings are lists of 8-bit characters (code points below 256). A \<open>datetime\<close> or \<open>date\<close>
  object is represented by the only thing the code ever asks of it, the text that
  \<open>strftime('%Y-%m-%dT%H:%M:%S')\<close> returns. Floats are a type parameter: their arithmetic is
  not modelled, only the conversions the code calls (see \<open>builtins\<close>).

  An exception is a value of \<open>py_error\<close>; a function that can raise returns
  \<open>py_error + 'a\<close>, with \<open>Inl\<close> for the exception. Only the messages of the exceptions the
  repository raises itself are kept word for word.
\<close>

datatype py_error =
    ValueError string
  | TypeError
  | KeyError string
  | AttributeError
  | OverflowError
  | StopIteration
  | ExternalError string

datatype 'f pyval =
    PNone
  | PBool bool
  | PInt int
  | PFloat 'f
  | PStr string
  | PDatetime string
  | PList "'f pyval list"
  | PDict "(string \<times> 'f pyval) list"

type_synonym 'f pydict = "(string \<times> 'f pyval) list"

definition map_result :: "('a \<Rightarrow> 'b) \<Rightarrow> 'e + 'a \<Rightarrow> 'e + 'b" where
  "map_result f r = (case r of Inl e \<Rightarrow> Inl e | Inr x \<Rightarrow> Inr (f x))"

text \<open>Running a list of computations in order, stopping at the first exception: what a
  comprehension does when the expression of one of its items raises.\<close>

fun sequence_err :: "('e + 'a) list \<Rightarrow> 'e + 'a list" where
  "sequence_err [] = Inr []"
| "sequence_err (r # rs) =
     (case r of
        Inl e \<Rightarrow> Inl e
      | Inr x \<Rightarrow> (case sequence_err rs of Inl e \<Rightarrow> Inl e | Inr xs \<Rightarrow> Inr (x # xs)))"

text \<open>\<open>d[k]\<close>, \<open>k in d\<close>, \<open>d.get(k)\<close> and \<open>d[k] = v\<close> on a dict (an assignment to an
  existing key keeps the key's position, a new key goes last).\<close>

definition dict_contains :: "'f pydict \<Rightarrow> string \<Rightarrow> bool" where
  "dict_contains d k = (k \<in> set (map fst d))"

definition dict_get :: "'f pydict \<Rightarrow> string \<Rightarrow> 'f pyval option" where
  "dict_get d k = map_of d k"

definition dict_getitem :: "'f pydict \<Rightarrow> string \<Rightarrow> py_error + 'f pyval" where
  "dict_getitem d k = (case map_of d k of None \<Rightarrow> Inl (KeyError k) | Some v \<Rightarrow> Inr v)"

fun dict_set :: "'f pydict \<Rightarrow> string \<Rightarrow> 'f pyval \<Rightarrow> 'f pydict" where
  "dict_set [] k v = [(k, v)]"
| "dict_set ((k', v') # d) k v = (if k' = k then (k, v) # d else (k', v') # dict_set d k v)"

text \<open>\<open>{**base, **extra}\<close>, and \<open>dict(items)\<close> from the empty dict: the items of \<open>extra\<close> are
  assigned one after the other, so a key keeps one value, the last one assigned.\<close>

definition dict_update :: "'f pydict \<Rightarrow> 'f pydict \<Rightarrow> 'f pydict" where
  "dict_update base extra = fold (\<lambda>(k, v) acc. dict_set acc k v) extra base"

section \<open>The built-in conversions\<close>

text \<open>
  \<open>int(...)\<close> and \<open>float(...)\<close> are Python's, not the repository's. What they do on a string
  and on a float is taken as a parameter, so every theorem below holds for whatever the
  interpreter does there; what they do on the other types is written out.
\<close>

record 'f builtins =
  int_of_str :: "string \<Rightarrow> py_error + int"
  float_of_str :: "string \<Rightarrow> py_error + 'f"
  float_of_int :: "int \<Rightarrow> py_error + 'f"
  int_of_float :: "'f \<Rightarrow> py_error + int"
  float_nonzero :: "'f \<Rightarrow> bool"

fun py_int :: "'f builtins \<Rightarrow> 'f pyval \<Rightarrow> py_error + int" where
  "py_int b (PStr s) = int_of_str b s"
| "py_int b (PInt n) = Inr n"
| "py_int b (PBool t) = Inr (if t then 1 else 0)"
| "py_int b (PFloat x) = int_of_float b x"
| "py_int b v = Inl TypeError"

fun py_float :: "'f builtins \<Rightarrow> 'f pyval \<Rightarrow> py_error + 'f" where
  "py_float b (PStr s) = float_of_str b s"
| "py_float b (PInt n) = float_of_int b n"
| "py_float b (PBool t) = float_of_int b (if t then 1 else 0)"
| "py_float b (PFloat x) = Inr x"
| "py_float b v = Inl TypeError"

text \<open>\<open>str.lower()\<close> on code points below 256: the ASCII capitals and the Latin-1 capitals
  (all of 0xC0 .. 0xDE but the multiplication sign 0xD7) move up by 32.\<close>

definition lower_char :: "char \<Rightarrow> char" where
  "lower_char c =
     (let n = (of_char c :: nat)
      in if (65 \<le> n \<and> n \<le> 90) \<or> (192 \<le> n \<and> n \<le> 222 \<and> n \<noteq> 215)
         then char_of (n + 32) else c)"

definition py_lower :: "string \<Rightarrow> string" where
  "py_lower s = map lower_char s"

fun py_str_lower :: "'f pyval \<Rightarrow> py_error + string" where
  "py_str_lower (PStr s) = Inr (py_lower s)"
| "py_str_lower v = Inl AttributeError"

section \<open>Parameter coercion: \<open>handle_param_typing\<close>\<close>

text \<open>The table \<open>TYPE_MAPPERS\<close> of \<open>botohook/lambda_function.py\<close>, in the order it is
  written: each entry takes the whole envelope and reads its own key from it.\<close>

definition TYPE_MAPPERS ::
  "'f builtins \<Rightarrow> (string \<times> ('f pydict \<Rightarrow> py_error + 'f pyval)) list" where
  "TYPE_MAPPERS b =
     [(''Type::Int'', \<lambda>v.
         case dict_getitem v ''Type::Int'' of
           Inl e \<Rightarrow> Inl e
         | Inr x \<Rightarrow> map_result PInt (py_int b x)),
      (''Type::Float'', \<lambda>v.
         case dict_getitem v ''Type::Float'' of
           Inl e \<Rightarrow> Inl e
         | Inr x \<Rightarrow> map_result PFloat (py_float b x)),
      (''Type::Bool'', \<lambda>v.
         case dict_getitem v ''Type::Bool'' of
           Inl e \<Rightarrow> Inl e
         | Inr x \<Rightarrow> map_result (\<lambda>s. PBool (s \<in> set [''true'', ''1''])) (py_str_lower x))]"

definition type_tags :: "string list" where
  "type_tags = [''Type::Int'', ''Type::Float'', ''Type::Bool'']"

text \<open>\<open>next(k for k in parameter if k in TYPE_MAPPERS)\<close>: the first key of the dict, in the
  dict's own order, that is a type tag.\<close>

definition first_tag :: "'f pydict \<Rightarrow> string option" where
  "first_tag d = find (\<lambda>k. k \<in> set type_tags) (map fst d)"

definition apply_mapper :: "'f builtins \<Rightarrow> 'f pydict \<Rightarrow> py_error + 'f pyval" where
  "apply_mapper b d =
     (case first_tag d of
        None \<Rightarrow> Inl StopIteration
      | Some k \<Rightarrow>
          (case map_of (TYPE_MAPPERS b) k of
             None \<Rightarrow> Inl (KeyError k)
           | Some f \<Rightarrow> f d))"

fun handle_param_typing :: "'f builtins \<Rightarrow> 'f pyval \<Rightarrow> py_error + 'f pyval" where
  "handle_param_typing b (PDict d) =
     (if list_ex (\<lambda>k. dict_contains d k) type_tags
      then apply_mapper b d
      else map_result PDict
             (sequence_err (map (\<lambda>(k, v). map_result (Pair k) (handle_param_typing b v)) d)))"
| "handle_param_typing b (PList xs) =
     map_result PList (sequence_err (map (handle_param_typing b) xs))"
| "handle_param_typing b v = Inr v"

text \<open>The inputs on which the coercion does not raise, along the walk the coercion makes. A
  dict that holds a type tag is replaced whole: the value under the first of its tags must be
  one the tagged conversion accepts (\<open>int(...)\<close>, \<open>float(...)\<close>, or a string for
  \<open>.lower()\<close>), and its other keys are never looked at. Of a dict without a tag every value, and
  of a list every element, must be such an input again. Anything else is one.\<close>

definition succeeds :: "'e + 'a \<Rightarrow> bool" where
  "succeeds r = (case r of Inl e \<Rightarrow> False | Inr x \<Rightarrow> True)"

fun convertible :: "'f builtins \<Rightarrow> string \<Rightarrow> 'f pyval \<Rightarrow> bool" where
  "convertible b tag v =
     (if tag = ''Type::Int'' then succeeds (py_int b v)
      else if tag = ''Type::Float'' then succeeds (py_float b v)
      else (case v of PStr s \<Rightarrow> True | _ \<Rightarrow> False))"

fun coercible :: "'f builtins \<Rightarrow> 'f pyval \<Rightarrow> bool" where
  "coercible b (PDict d) =
     (case first_tag d of
        Some k \<Rightarrow> (case map_of d k of Some v \<Rightarrow> convertible b k v | None \<Rightarrow> False)
      | None \<Rightarrow> list_all (\<lambda>(k, v). coercible b v) d)"
| "coercible b (PList xs) = list_all (coercible b) xs"
| "coercible b v = True"

text \<open>A typed envelope somewhere in a value: a dict, at any depth, that holds a type tag.\<close>

fun has_envelope :: "'f pyval \<Rightarrow> bool" where
  "has_envelope (PDict d) =
     (list_ex (\<lambda>k. dict_contains d k) type_tags \<or> list_ex (\<lambda>(k, v). has_envelope v) d)"
| "has_envelope (PList xs) = list_ex has_envelope xs"
| "has_envelope v = False"

section \<open>The response flattener\<close>

text \<open>Python's truth value of an object (\<open>not x\<close>, \<open>if x\<close>); that of a float is the
  interpreter's.\<close>

fun truthy :: "'f builtins \<Rightarrow> 'f pyval \<Rightarrow> bool" where
  "truthy b PNone = False"
| "truthy b (PBool t) = t"
| "truthy b (PInt n) = (n \<noteq> 0)"
| "truthy b (PFloat x) = float_nonzero b x"
| "truthy b (PStr s) = (s \<noteq> [])"
| "truthy b (PDatetime s) = True"
| "truthy b (PList xs) = (xs \<noteq> [])"
| "truthy b (PDict d) = (d \<noteq> [])"

text \<open>\<open>str(i)\<close> of a list index.\<close>

function str_of_nat :: "nat \<Rightarrow> string" where
  "str_of_nat n =
     (if n < 10 then [''0123456789'' ! n]
      else str_of_nat (n div 10) @ [''0123456789'' ! (n mod 10)])"
  by pat_completeness auto
termination
  by (relation "measure id") auto

declare str_of_nat.simps [simp del]

text \<open>
  Modelled from the spec: \<open>FlatterDict(value, delimiter='.')\<close> of the third-party package
  \<open>flatdict\<close>, whose code is not part of the repository. Section 4.2 of the spec: nested
  mappings are flattened recursively into dotted keys, list elements are flattened with their
  index as a path segment, an empty mapping gives an empty result, and the nesting may be
  arbitrarily deep. \<open>flatten_at key v\<close> are the entries below the path \<open>key\<close>, in the order of
  the input, and \<open>flat_entries\<close> those of a whole mapping. The result is a mapping (section 3
  of the spec), so the entries are assigned to it one after the other: should two leaves have
  the same dotted path, the key is held once, with the value of the later leaf.
\<close>

function (sequential) flatten_at :: "string \<Rightarrow> string \<Rightarrow> 'f pyval \<Rightarrow> 'f pydict" where
  "flatten_at delimiter key (PDict d) =
     concat (map (\<lambda>(k, v). flatten_at delimiter (key @ delimiter @ k) v) d)"
| "flatten_at delimiter key (PList xs) =
     concat (map (\<lambda>(i, v). flatten_at delimiter (key @ delimiter @ str_of_nat i) v)
                 (zip [0..<length xs] xs))"
| "flatten_at delimiter key v = [(key, v)]"
  by pat_completeness auto
termination
proof (relation "measure (\<lambda>(delimiter, key, v). size v)", goal_cases)
  case 1
  show ?case by simp
next
  case (2 delimiter key d kv k v)
  then have "size v < Suc (size_list (size_prod (\<lambda>_. 0) size) d)"
    by (induction d) auto
  then show ?case using 2 by simp
next
  case (3 delimiter key xs iv i v)
  then have "v \<in> set xs" by (auto dest: set_zip_rightD)
  then have "size v < Suc (size_list size xs)"
    by (induction xs) auto
  then show ?case by simp
qed

definition flat_entries :: "'f pydict \<Rightarrow> string \<Rightarrow> 'f pydict" where
  "flat_entries d delimiter = concat (map (\<lambda>(k, v). flatten_at delimiter k v) d)"

definition FlatterDict :: "'f pydict \<Rightarrow> string \<Rightarrow> 'f pydict" where
  "FlatterDict d delimiter = dict_update [] (flat_entries d delimiter)"

text \<open>Lines 127 to 132 of \<open>botohook/lambda_function.py\<close>: the value that becomes
  \<open>cfn_resource.Data\<close>. A response that is not a dict is wrapped under \<open>Result\<close>, the
  items of the flattened dict are walked through, and a \<open>datetime\<close> or \<open>date\<close> among them is
  replaced by its \<open>strftime\<close> text. The comprehension keeps the keys, so the result is a dict
  again.\<close>

definition escape_datetime :: "'f pyval \<Rightarrow> 'f pyval" where
  "escape_datetime v = (case v of PDatetime s \<Rightarrow> PStr s | _ \<Rightarrow> v)"

definition response_data :: "'f pyval \<Rightarrow> 'f pydict" where
  "response_data boto_res =
     map (\<lambda>(k, v). (k, escape_datetime v))
       (FlatterDict (case boto_res of PDict d \<Rightarrow> d | _ \<Rightarrow> [(''Result'', boto_res)]) ''.'')"

text \<open>
  The leaves of a value and the paths to them, to state what the flattening does.
  \<open>reaches v ks x\<close>: following the segments \<open>ks\<close> from \<open>v\<close>, a key of a mapping or the index of
  a list element at each step, ends at \<open>x\<close>. \<open>leaf_paths v\<close> lists the paths from \<open>v\<close> to
  its leaves, the values that are neither a mapping nor a list, in the order of the input.
\<close>

inductive reaches :: "'f pyval \<Rightarrow> string list \<Rightarrow> 'f pyval \<Rightarrow> bool" where
  here: "reaches v [] v"
| key: "(k, v) \<in> set d \<Longrightarrow> reaches v ks x \<Longrightarrow> reaches (PDict d) (k # ks) x"
| index: "i < length xs \<Longrightarrow> reaches (xs ! i) ks x \<Longrightarrow> reaches (PList xs) (str_of_nat i # ks) x"

function (sequential) leaf_paths :: "'f pyval \<Rightarrow> (string list \<times> 'f pyval) list" where
  "leaf_paths (PDict d) =
     concat (map (\<lambda>(k, v). map (\<lambda>(ks, x). (k # ks, x)) (leaf_paths v)) d)"
| "leaf_paths (PList xs) =
     concat (map (\<lambda>(i, v). map (\<lambda>(ks, x). (str_of_nat i # ks, x)) (leaf_paths v))
                 (zip [0..<length xs] xs))"
| "leaf_paths v = [([], v)]"
  by pat_completeness auto
termination
proof (relation "measure size", goal_cases)
  case 1
  show ?case by simp
next
  case (2 d kv k v)
  then have "size v < Suc (size_list (size_prod (\<lambda>_. 0) size) d)"
    by (induction d) auto
  then show ?case using 2 by simp
next
  case (3 xs iv i v)
  then have "v \<in> set xs" by (auto dest: set_zip_rightD)
  then have "size v < Suc (size_list size xs)"
    by (induction xs) auto
  then show ?case by simp
qed

text \<open>The mapping that is flattened: the response itself, or the response under \<open>Result\<close>.\<close>

definition as_mapping :: "'f pyval \<Rightarrow> 'f pydict" where
  "as_mapping v = (case v of PDict d \<Rightarrow> d | _ \<Rightarrow> [(''Result'', v)])"

text \<open>A value whose mappings have keys without a dot (JSON objects never repeat a key): the
  values whose leaves have pairwise different dotted paths.\<close>

fun plain_keys :: "'f pyval \<Rightarrow> bool" where
  "plain_keys (PDict d) =
     (distinct (map fst d) \<and> list_all (\<lambda>(k, v). CHR ''.'' \<notin> set k \<and> plain_keys v) d)"
| "plain_keys (PList xs) = list_all plain_keys xs"
| "plain_keys v = True"

text \<open>Reading a decimal numeral, to tell the indices of a list apart by their text.\<close>

definition nat_of_str :: "string \<Rightarrow> nat" where
  "nat_of_str s = fold (\<lambda>c a. 10 * a + ((of_char c :: nat) - 48)) s 0"

fun dotted :: "string list \<Rightarrow> string" where
  "dotted [] = []"
| "dotted [k] = k"
| "dotted (k # ks) = k @ ''.'' @ dotted ks"

fun is_container :: "'f pyval \<Rightarrow> bool" where
  "is_container (PDict d) = True"
| "is_container (PList xs) = True"
| "is_container v = False"

section \<open>The Action Bridge: \<open>handle_custom_resource_request\<close>\<close>

text \<open>The event of a custom resource, with the keys the docstring of the handler lists.\<close>

record 'f event =
  RequestType :: string
  ResponseURL :: string
  StackId :: string
  RequestId :: string
  ResourceType :: string
  LogicalResourceId :: string
  ResourceProperties :: "'f pydict"

text \<open>
  What the handler calls outside the repository. A Boto3 client is seen through its bound
  methods: \<open>client m = Some f\<close> when \<open>hasattr(client, m)\<close> holds and the attribute is a
  method, and \<open>f kwargs\<close> is what the call returns or raises. \<open>search\<close> is
  \<open>jmespath.search\<close>, \<open>json_dumps\<close> is \<open>json.dumps\<close>, \<open>generate_physical_id\<close> is
  \<open>crhelper\<close>'s, and \<open>str_of\<close> is \<open>str(...)\<close> of a value that is not a string.
\<close>

type_synonym 'f boto_client = "string \<Rightarrow> ('f pydict \<Rightarrow> py_error + 'f pyval) option"

record 'f host =
  python :: "'f builtins"
  boto3_client :: "'f pyval \<Rightarrow> py_error + 'f boto_client"
  search :: "'f pyval \<Rightarrow> 'f pyval \<Rightarrow> py_error + 'f pyval"
  json_dumps :: "'f pyval \<Rightarrow> py_error + string"
  generate_physical_id :: "'f event \<Rightarrow> string"
  str_of :: "'f pyval \<Rightarrow> string"

definition bind_err :: "'e + 'a \<Rightarrow> ('a \<Rightarrow> 'e + 'b) \<Rightarrow> 'e + 'b" where
  "bind_err r f = (case r of Inl e \<Rightarrow> Inl e | Inr x \<Rightarrow> f x)"

text \<open>\<open>v[k]\<close> with a string \<open>k\<close>: only a dict can be read that way.\<close>

fun py_getitem :: "'f pyval \<Rightarrow> string \<Rightarrow> py_error + 'f pyval" where
  "py_getitem (PDict d) k = dict_getitem d k"
| "py_getitem v k = Inl TypeError"

text \<open>\<open>v.get(k)\<close>: only a dict has the method.\<close>

fun py_get :: "'f pyval \<Rightarrow> string \<Rightarrow> py_error + 'f pyval option" where
  "py_get (PDict d) k = Inr (dict_get d k)"
| "py_get v k = Inl AttributeError"

definition format_s :: "'f host \<Rightarrow> 'f pyval \<Rightarrow> string" where
  "format_s h v = (case v of PStr s \<Rightarrow> s | _ \<Rightarrow> str_of h v)"

text \<open>Lines 97 to 101: the kind of hook to run, \<open>None\<close> when there is none.\<close>

definition request_type :: "'f event \<Rightarrow> string option" where
  "request_type event =
     (if dict_contains (ResourceProperties event) (RequestType event)
      then Some (RequestType event)
      else if RequestType event = ''Update'' \<and> dict_contains (ResourceProperties event) ''Create''
      then Some ''Create''
      else None)"

text \<open>Lines 113 to 123: reading the hook and calling the Boto3 method. The result is
  \<open>boto_res\<close>.\<close>

definition invoke_hook :: "'f host \<Rightarrow> 'f pyval \<Rightarrow> py_error + 'f pyval" where
  "invoke_hook h hook_properties =
     bind_err (py_getitem hook_properties ''Client'') (\<lambda>client_name.
     bind_err (py_getitem hook_properties ''Method'') (\<lambda>method_name.
     bind_err (py_get hook_properties ''Parameters'') (\<lambda>parameters.
     let boto_request_params = (case parameters of None \<Rightarrow> PDict [] | Some p \<Rightarrow> p)
     in bind_err (boto3_client h client_name) (\<lambda>client.
        case method_name of
          PStr m \<Rightarrow>
            (case client m of
               None \<Rightarrow>
                 Inl (ValueError (''Boto client method '' @ [CHR 0x27] @ format_s h client_name
                        @ ''.'' @ m @ [CHR 0x27] @ '' does not exist.''))
             | Some method \<Rightarrow>
                 bind_err (handle_param_typing (python h) boto_request_params) (\<lambda>kwargs.
                   case kwargs of PDict kw \<Rightarrow> method kw | _ \<Rightarrow> Inl TypeError))
        | _ \<Rightarrow> Inl TypeError))))"

text \<open>Lines 135 to 149: the physical id, with \<open>cfn_resource.Data\<close> passed in and out.\<close>

definition no_result_message :: "string \<Rightarrow> string" where
  "no_result_message rt =
     ''The resource was successfully '' @ py_lower rt
       @ ''d, but the JMESPath expression did not return any''
       @ ''result. Said resource will not be roll-backed and must be deleted manually.''"

definition resolve_physical_id ::
  "'f host \<Rightarrow> string \<Rightarrow> 'f pyval \<Rightarrow> 'f pyval \<Rightarrow> 'f pydict \<Rightarrow> (py_error + 'f pyval) \<times> 'f pydict" where
  "resolve_physical_id h rt hook_properties boto_res data =
     (if rt \<in> set [''Create'', ''Update''] then
        (case py_get hook_properties ''PhysicalResourceId'' of
           Inl e \<Rightarrow> (Inl e, data)
         | Inr None \<Rightarrow> (Inr PNone, data)
         | Inr (Some physical_id_expr) \<Rightarrow>
             if truthy (python h) physical_id_expr then
               (case search h physical_id_expr boto_res of
                  Inl e \<Rightarrow> (Inl e, data)
                | Inr physical_id \<Rightarrow>
                    if \<not> truthy (python h) physical_id
                    then (Inl (ValueError (no_result_message rt)), data)
                    else (case physical_id of
                            PStr s \<Rightarrow> (Inr (PStr s), dict_set data ''Ref'' (PStr s))
                          | _ \<Rightarrow>
                              (case json_dumps h physical_id of
                                 Inl e \<Rightarrow> (Inl e, data)
                               | Inr s \<Rightarrow> (Inr (PStr s), dict_set data ''Ref'' (PStr s)))))
             else (Inr PNone, data))
      else (Inr PNone, data))"

text \<open>The hook found: lines 113 to 149. \<open>cfn_resource.Data\<close> is replaced as soon as the
  call has returned, before the physical id is looked for.\<close>

definition run_hook ::
  "'f host \<Rightarrow> string \<Rightarrow> 'f event \<Rightarrow> 'f pydict \<Rightarrow> (py_error + 'f pyval) \<times> 'f pydict" where
  "run_hook h rt event data =
     (case dict_getitem (ResourceProperties event) rt of
        Inl e \<Rightarrow> (Inl e, data)
      | Inr hook_properties \<Rightarrow>
          (case invoke_hook h hook_properties of
             Inl e \<Rightarrow> (Inl e, data)
           | Inr boto_res \<Rightarrow>
               resolve_physical_id h rt hook_properties boto_res (response_data boto_res)))"

text \<open>The handler: what it returns or raises, and \<open>cfn_resource.Data\<close> after it.\<close>

definition handle_custom_resource_request ::
  "'f host \<Rightarrow> 'f event \<Rightarrow> 'f pydict \<Rightarrow> (py_error + 'f pyval) \<times> 'f pydict" where
  "handle_custom_resource_request h event data =
     (case request_type event of
        None \<Rightarrow>
          if RequestType event = ''Update''
          then (Inr (PStr (generate_physical_id h event)), data)
          else (Inr PNone, data)
      | Some rt \<Rightarrow> run_hook h rt event data)"

section \<open>The Resource-Type Rewriter: \<open>replace_fragment_resources\<close>\<close>

text \<open>\<open>s.startswith(p)\<close> and \<open>s.lstrip(chars)\<close>: the latter removes leading characters for
  as long as they occur in \<open>chars\<close>.\<close>

definition startswith :: "string \<Rightarrow> string \<Rightarrow> bool" where
  "startswith s p = (take (length p) s = p)"

definition lstrip :: "string \<Rightarrow> string \<Rightarrow> string" where
  "lstrip s chars = dropWhile (\<lambda>c. c \<in> set chars) s"

text \<open>Removing a prefix as the literal it is (Python's \<open>removeprefix\<close>): what the spec asks
  for, and what the code does not call.\<close>

definition removeprefix :: "string \<Rightarrow> string \<Rightarrow> string" where
  "removeprefix s p = (if startswith s p then drop (length p) s else s)"

text \<open>What \<open>{**base, **extra}\<close> makes of an entry of \<open>base\<close>: its value is the one \<open>extra\<close> has
  for the key, when it has one.\<close>

definition overridden :: "'f pydict \<Rightarrow> string \<times> 'f pyval \<Rightarrow> string \<times> 'f pyval" where
  "overridden extra kv = (fst kv, case map_of extra (fst kv) of None \<Rightarrow> snd kv | Some v \<Rightarrow> v)"

definition CUSTOM_RESOURCE :: string where
  "CUSTOM_RESOURCE = ''AWS::CloudFormation::CustomResource''"

text \<open>The condition of the comprehension (lines 49 and 50), for a resource that is a dict.
  \<open>.startswith\<close> is a method of strings only.\<close>

definition matches :: "string \<Rightarrow> 'f pydict \<Rightarrow> 'f pydict \<Rightarrow> py_error + bool" where
  "matches prefix tokens resource_def =
     (if dict_contains resource_def ''Type'' then
        bind_err (dict_getitem resource_def ''Type'') (\<lambda>ty.
          case ty of
            PStr t \<Rightarrow> Inr (startswith t prefix \<and> dict_contains tokens (lstrip t prefix))
          | _ \<Rightarrow> Inl AttributeError)
      else Inr False)"

text \<open>The dict display of lines 42 to 48. \<open>**x\<close> raises \<open>TypeError\<close> unless \<open>x\<close> is a
  mapping, and \<open>.get('Properties')\<close> is \<open>None\<close> when the key is absent.\<close>

definition custom_resource :: "string \<Rightarrow> 'f pydict \<Rightarrow> 'f pydict \<Rightarrow> py_error + 'f pydict" where
  "custom_resource prefix tokens resource_def =
     bind_err (dict_getitem resource_def ''Type'') (\<lambda>ty.
       case ty of
         PStr t \<Rightarrow>
           bind_err (dict_getitem tokens (lstrip t prefix)) (\<lambda>token.
             case dict_get resource_def ''Properties'' of
               Some (PDict props) \<Rightarrow>
                 Inr (dict_set (dict_set resource_def ''Type'' (PStr CUSTOM_RESOURCE))
                        ''Properties'' (PDict (dict_update [(''ServiceToken'', token)] props)))
             | _ \<Rightarrow> Inl TypeError)
       | _ \<Rightarrow> Inl AttributeError)"

definition replace_resource :: "string \<Rightarrow> 'f pydict \<Rightarrow> 'f pydict \<Rightarrow> py_error + 'f pydict" where
  "replace_resource prefix tokens resource_def =
     bind_err (matches prefix tokens resource_def) (\<lambda>m.
       if m then custom_resource prefix tokens resource_def else Inr resource_def)"

text \<open>The function: \<open>RESOURCE_TYPE_PREFIX\<close> and \<open>RESOURCE_TYPE_SERVICE_TOKENS\<close>, read from
  the environment in the source, are its first two arguments. Every resource of a template is
  a JSON object.\<close>

definition replace_fragment_resources ::
  "string \<Rightarrow> 'f pydict \<Rightarrow> (string \<times> 'f pydict) list \<Rightarrow> py_error + (string \<times> 'f pydict) list" where
  "replace_fragment_resources prefix tokens resources =
     sequence_err
       (map (\<lambda>(resource_id, resource_def).
               map_result (Pair resource_id) (replace_resource prefix tokens resource_def))
            resources)"

section \<open>A reference interpreter for the examples\<close>

text \<open>
  The closed examples below need one concrete \<open>builtins\<close>. Its \<open>int(s)\<close> follows CPython
  for base 10 on strings of code points below 256: surrounding whitespace is dropped (the
  ASCII whitespace 0x09 .. 0x0D and 0x20, and the spaces 0x85 and 0xA0), one sign may
  follow, then come decimal digits that single underscores may separate, at most 4300 of them
  (the limit of CPython 3.11 and later, looked at before what follows the digits). A float of the examples is the 64 bits of its
  encoding; what \<open>float(...)\<close> and the other conversions compute is not modelled and is left
  unspecified. No example reaches them.
\<close>

definition unmodelled :: "'a" where
  "unmodelled = undefined"

type_synonym binary64 = "64 word"

definition is_number_space :: "char \<Rightarrow> bool" where
  "is_number_space c = ((of_char c :: nat) \<in> set [9, 10, 11, 12, 13, 32, 133, 160])"

definition strip_number :: "string \<Rightarrow> string" where
  "strip_number s = rev (dropWhile is_number_space (rev (dropWhile is_number_space s)))"

definition is_digit :: "char \<Rightarrow> bool" where
  "is_digit c = (48 \<le> (of_char c :: nat) \<and> (of_char c :: nat) \<le> 57)"

definition digit_val :: "char \<Rightarrow> int" where
  "digit_val c = of_char c - 48"

fun parse_digits :: "int \<Rightarrow> string \<Rightarrow> int option" where
  "parse_digits acc [] = Some acc"
| "parse_digits acc (c # cs) =
     (if is_digit c then parse_digits (10 * acc + digit_val c) cs
      else if c = CHR ''_'' then
        (case cs of
           [] \<Rightarrow> None
         | d # ds \<Rightarrow> if is_digit d then parse_digits (10 * acc + digit_val d) ds else None)
      else None)"

definition parse_nat :: "string \<Rightarrow> int option" where
  "parse_nat s =
     (case s of
        [] \<Rightarrow> None
      | d # ds \<Rightarrow> if is_digit d then parse_digits (digit_val d) ds else None)"

definition split_sign :: "string \<Rightarrow> int \<times> string" where
  "split_sign s =
     (case s of
        [] \<Rightarrow> (1, [])
      | c # cs \<Rightarrow> if c = CHR ''+'' then (1, cs) else if c = CHR ''-'' then (- 1, cs) else (1, s))"

definition ref_int_of_str :: "string \<Rightarrow> py_error + int" where
  "ref_int_of_str s =
     (let (sg, body) = split_sign (strip_number s);
          numeral = takeWhile (\<lambda>c. is_digit c \<or> c = CHR ''_'') body;
          rest = dropWhile (\<lambda>c. is_digit c \<or> c = CHR ''_'') body
      in case parse_nat numeral of
           None \<Rightarrow> Inl (ValueError ''invalid literal for int() with base 10'')
         | Some n \<Rightarrow>
             if 4300 < length (filter is_digit numeral)
             then Inl (ValueError ''Exceeds the limit (4300 digits) for integer string conversion'')
             else if rest \<noteq> [] then Inl (ValueError ''invalid literal for int() with base 10'')
             else Inr (sg * n))"

definition ref_builtins :: "binary64 builtins" where
  "ref_builtins =
     \<lparr> int_of_str = ref_int_of_str,
       float_of_str = (\<lambda>s. unmodelled),
       float_of_int = (\<lambda>n. unmodelled),
       int_of_float = (\<lambda>x. unmodelled),
       float_nonzero = (\<lambda>x. unmodelled) \<rparr>"

text \<open>
  The host of the examples is the one of the end-to-end scenarios of the spec: the service
  \<open>s3\<close> has the method \<open>create_bucket\<close>, which returns \<open>{"Location": "/x"}\<close>, and no other
  service is known. Of JMESPath it has the expressions that are one unquoted identifier: on a
  dict such an expression reads the key, and gives \<open>None\<close> when the key is missing or the
  value is no dict. Of \<open>json.dumps\<close> it has \<open>null\<close>, the booleans and the integers. The
  rest of both, \<open>str(...)\<close> and the physical id that \<open>crhelper\<close> draws at random are left
  unspecified.
\<close>

definition s3_client :: "'f boto_client" where
  "s3_client m =
     (if m = ''create_bucket'' then Some (\<lambda>kwargs. Inr (PDict [(''Location'', PStr ''/x'')]))
      else None)"

definition is_letter :: "char \<Rightarrow> bool" where
  "is_letter c =
     ((65 \<le> (of_char c :: nat) \<and> (of_char c :: nat) \<le> 90)
      \<or> (97 \<le> (of_char c :: nat) \<and> (of_char c :: nat) \<le> 122) \<or> c = CHR ''_'')"

definition is_identifier :: "string \<Rightarrow> bool" where
  "is_identifier s =
     (case s of
        [] \<Rightarrow> False
      | c # cs \<Rightarrow> is_letter c \<and> list_all (\<lambda>c. is_letter c \<or> is_digit c) cs)"

definition example_search :: "'f pyval \<Rightarrow> 'f pyval \<Rightarrow> py_error + 'f pyval" where
  "example_search expression v =
     (case expression of
        PStr k \<Rightarrow>
          if is_identifier k then
            (case v of
               PDict d \<Rightarrow> Inr (case map_of d k of None \<Rightarrow> PNone | Some x \<Rightarrow> x)
             | _ \<Rightarrow> Inr PNone)
          else unmodelled
      | _ \<Rightarrow> unmodelled)"

definition example_json_dumps :: "'f pyval \<Rightarrow> py_error + string" where
  "example_json_dumps v =
     (case v of
        PNone \<Rightarrow> Inr ''null''
      | PBool t \<Rightarrow> Inr (if t then ''true'' else ''false'')
      | PInt n \<Rightarrow> Inr (if n < 0 then ''-'' @ str_of_nat (nat (- n)) else str_of_nat (nat n))
      | _ \<Rightarrow> unmodelled)"

definition example_host :: "binary64 host" where
  "example_host =
     \<lparr> python = ref_builtins,
       boto3_client = (\<lambda>name. if name = PStr ''s3'' then Inr s3_client
                               else Inl (ExternalError ''UnknownServiceError'')),
       search = example_search,
       json_dumps = example_json_dumps,
       generate_physical_id = (\<lambda>event. unmodelled),
       str_of = (\<lambda>v. unmodelled) \<rparr>"

definition example_event :: "string \<Rightarrow> binary64 pydict \<Rightarrow> binary64 event" where
  "example_event kind properties =
     \<lparr> RequestType = kind,
       ResponseURL = ''https://example.invalid/response'',
       StackId = ''arn:aws:cloudformation:us-east-1:123456789012:stack/demo/1'',
       RequestId = ''r-1'',
       ResourceType = ''Custom::Bucket'',
       LogicalResourceId = ''Bucket'',
       ResourceProperties = properties \<rparr>"

definition bucket_hook :: "binary64 pydict" where
  "bucket_hook =
     [(''Client'', PStr ''s3''), (''Method'', PStr ''create_bucket''),
      (''Parameters'', PDict [(''Bucket'', PStr ''x'')])]"

section \<open>Auxiliary facts\<close>

lemma map_result_simps [simp]:
  "map_result f (Inl e) = Inl e" "map_result f (Inr x) = Inr (f x)"
  by (simp_all add: map_result_def)

lemma bind_err_simps [simp]: "bind_err (Inl e) f = Inl e" "bind_err (Inr x) f = f x"
  by (simp_all add: bind_err_def)

lemma map_result_Inr: "map_result f r = Inr y \<longleftrightarrow> (\<exists>x. r = Inr x \<and> y = f x)"
  by (cases r) auto

lemma succeeds_simps [simp]: "succeeds (Inr x)" "\<not> succeeds (Inl e)"
  by (simp_all add: succeeds_def)


lemma succeeds_map_result [simp]: "succeeds (map_result f r) = succeeds r"
  by (cases r) auto

lemma sequence_err_map_Inr: "sequence_err (map Inr ys) = Inr ys"
  by (induction ys) auto

lemma sequence_err_Cons_Inr:
  "sequence_err (r # rs) = Inr zs \<longleftrightarrow>
     (\<exists>x xs. r = Inr x \<and> sequence_err rs = Inr xs \<and> zs = x # xs)"
  by (auto split: sum.splits)


text \<open>A comprehension over the result of the same comprehension changes nothing, when
  its expression is idempotent on the items of the first list.\<close>

lemma sequence_err_map_idem:
  assumes "sequence_err (map f xs) = Inr ys"
    and "\<And>x y. x \<in> set xs \<Longrightarrow> f x = Inr y \<Longrightarrow> f y = Inr y"
  shows "sequence_err (map f ys) = Inr ys"
  using assms
proof (induction xs arbitrary: ys)
  case Nil
  then show ?case by simp
next
  case (Cons x xs)
  from Cons.prems(1) obtain y ys' where fx: "f x = Inr y"
    and rest: "sequence_err (map f xs) = Inr ys'" and ys: "ys = y # ys'"
    by (auto simp: sequence_err_Cons_Inr simp del: sequence_err.simps)
  have "f y = Inr y" using Cons.prems(2)[of x y] fx by simp
  moreover have "sequence_err (map f ys') = Inr ys'"
    using rest by (rule Cons.IH) (use Cons.prems(2) in auto)
  ultimately show ?case by (simp add: ys)
qed

lemma sequence_err_map_pred:
  assumes "sequence_err (map f xs) = Inr ys"
    and "\<And>x y. x \<in> set xs \<Longrightarrow> f x = Inr y \<Longrightarrow> P y"
  shows "\<forall>y \<in> set ys. P y"
  using assms
proof (induction xs arbitrary: ys)
  case Nil
  then show ?case by simp
next
  case (Cons x xs)
  from Cons.prems(1) obtain y ys' where fx: "f x = Inr y"
    and rest: "sequence_err (map f xs) = Inr ys'" and ys: "ys = y # ys'"
    by (auto simp: sequence_err_Cons_Inr simp del: sequence_err.simps)
  have "P y" using Cons.prems(2)[of x y] fx by simp
  moreover have "\<forall>y \<in> set ys'. P y"
    using rest by (rule Cons.IH) (use Cons.prems(2) in auto)
  ultimately show ?case by (simp add: ys)
qed

lemma sequence_err_items_keys:
  "sequence_err (map (\<lambda>(k, v). map_result (Pair k) (h v)) d) = Inr d' \<Longrightarrow>
   map fst d' = map fst d"
proof (induction d arbitrary: d')
  case Nil
  then show ?case by simp
next
  case (Cons kv d)
  then show ?case
    by (cases kv) (auto simp: sequence_err_Cons_Inr map_result_Inr simp del: sequence_err.simps)
qed

subsection \<open>Assignments to a dict\<close>

lemma map_of_dict_set: "map_of (dict_set d k v) k' = (if k' = k then Some v else map_of d k')"
  by (induction d k v rule: dict_set.induct) auto

lemma keys_dict_set:
  "map fst (dict_set d k v) = (if k \<in> set (map fst d) then map fst d else map fst d @ [k])"
  by (induction d k v rule: dict_set.induct) auto

lemma set_dict_set_subset: "set (dict_set d k v) \<subseteq> insert (k, v) (set d)"
  by (induction d k v rule: dict_set.induct) auto

lemma dict_update_Nil [simp]: "dict_update base [] = base"
  by (simp add: dict_update_def)

lemma dict_update_Cons: "dict_update base ((k, v) # extra) = dict_update (dict_set base k v) extra"
  by (simp add: dict_update_def)

lemma keys_dict_update:
  "set (map fst (dict_update base extra)) = set (map fst base) \<union> set (map fst extra)"
proof (induction extra arbitrary: base)
  case Nil
  show ?case by simp
next
  case (Cons kv extra)
  obtain k v where kv: "kv = (k, v)" by (cases kv)
  show ?case unfolding kv dict_update_Cons Cons.IH
    by (auto simp: keys_dict_set)
qed

lemma distinct_dict_update:
  "distinct (map fst base) \<Longrightarrow> distinct (map fst (dict_update base extra))"
proof (induction extra arbitrary: base)
  case Nil
  then show ?case by simp
next
  case (Cons kv extra)
  obtain k v where kv: "kv = (k, v)" by (cases kv)
  have "distinct (map fst (dict_set base k v))"
    using Cons.prems by (simp add: keys_dict_set)
  then show ?case unfolding kv dict_update_Cons by (rule Cons.IH)
qed

lemma set_dict_update_subset: "set (dict_update base extra) \<subseteq> set base \<union> set extra"
proof (induction extra arbitrary: base)
  case Nil
  show ?case by simp
next
  case (Cons kv extra)
  obtain k v where kv: "kv = (k, v)" by (cases kv)
  have "set (dict_update (dict_set base k v) extra) \<subseteq> set (dict_set base k v) \<union> set extra"
    by (rule Cons.IH)
  also have "\<dots> \<subseteq> insert (k, v) (set base) \<union> set extra"
    using set_dict_set_subset[of base k v] by auto
  finally show ?case unfolding kv dict_update_Cons by auto
qed

lemma map_of_dict_update:
  "map_of (dict_update base extra) k =
     (case map_of (rev extra) k of None \<Rightarrow> map_of base k | Some v \<Rightarrow> Some v)"
proof (induction extra arbitrary: base)
  case Nil
  show ?case by simp
next
  case (Cons kv extra)
  obtain k' v' where kv: "kv = (k', v')" by (cases kv)
  show ?case unfolding kv dict_update_Cons Cons.IH
    by (auto simp: map_of_dict_set map_add_def split: option.splits)
qed

lemma dict_set_absent: "k \<notin> set (map fst d) \<Longrightarrow> dict_set d k v = d @ [(k, v)]"
  by (induction d k v rule: dict_set.induct) auto

lemma dict_update_append:
  "distinct (map fst extra) \<Longrightarrow> set (map fst base) \<inter> set (map fst extra) = {} \<Longrightarrow>
   dict_update base extra = base @ extra"
proof (induction extra arbitrary: base)
  case Nil
  show ?case by simp
next
  case (Cons kv extra)
  obtain k v where kv: "kv = (k, v)" by (cases kv)
  from Cons.prems kv have nk: "k \<notin> set (map fst base)" and dx: "distinct (map fst extra)"
    and kx: "k \<notin> set (map fst extra)" and disj: "set (map fst base) \<inter> set (map fst extra) = {}"
    by auto
  have "dict_update (base @ [(k, v)]) extra = (base @ [(k, v)]) @ extra"
    using dx by (rule Cons.IH) (use kx disj in auto)
  then show ?case unfolding kv dict_update_Cons by (simp add: dict_set_absent[OF nk])
qed

lemma dict_update_empty_distinct: "distinct (map fst extra) \<Longrightarrow> dict_update [] extra = extra"
  using dict_update_append[of extra "[]"] by simp

section \<open>Properties of the coercion\<close>

text \<open>The type tags are the keys of \<open>TYPE_MAPPERS\<close>, in its order.\<close>

lemma type_tags_mapper_keys: "type_tags = map fst (TYPE_MAPPERS b)"
  by (simp add: type_tags_def TYPE_MAPPERS_def)



lemma apply_mapper_scalar:
  assumes "apply_mapper b d = Inr y"
  shows "(\<exists>n. y = PInt n) \<or> (\<exists>x. y = PFloat x) \<or> (\<exists>t. y = PBool t)"
  using assms
  by (auto simp: apply_mapper_def TYPE_MAPPERS_def map_result_def
      split: option.splits sum.splits if_splits)




lemma handle_param_typing_fixpoint:
  "handle_param_typing b x = Inr y \<Longrightarrow> handle_param_typing b y = Inr y"
proof (induction b x arbitrary: y rule: handle_param_typing.induct)
  case (1 b d)
  show ?case
  proof (cases "list_ex (\<lambda>k. dict_contains d k) type_tags")
    case True
    with "1.prems" have "apply_mapper b d = Inr y" by simp
    then show ?thesis using apply_mapper_scalar[of b d y] by auto
  next
    case False
    let ?f = "\<lambda>(k, v). map_result (Pair k) (handle_param_typing b v)"
    from False "1.prems" obtain d' where y: "y = PDict d'"
      and seq: "sequence_err (map ?f d) = Inr d'"
      by (auto simp: map_result_Inr)
    have keys: "map fst d' = map fst d"
      using seq by (rule sequence_err_items_keys)
    have step: "\<And>kv kv'. kv \<in> set d \<Longrightarrow> ?f kv = Inr kv' \<Longrightarrow> ?f kv' = Inr kv'"
    proof -
      fix kv kv' assume mem: "kv \<in> set d" and eq: "?f kv = Inr kv'"
      obtain k v where kv: "kv = (k, v)" by (cases kv)
      from eq kv obtain v' where v': "handle_param_typing b v = Inr v'" and kv': "kv' = (k, v')"
        by (auto simp: map_result_Inr)
      have "handle_param_typing b v' = Inr v'"
        using "1.IH"[OF False mem kv[symmetric] v'] .
      then show "?f kv' = Inr kv'" by (simp add: kv')
    qed
    have "sequence_err (map ?f d') = Inr d'"
      using seq step by (rule sequence_err_map_idem)
    moreover have "\<not> list_ex (\<lambda>k. dict_contains d' k) type_tags"
      using False keys by (simp add: dict_contains_def)
    ultimately show ?thesis
      by (simp add: y)
  qed
next
  case (2 b xs)
  then obtain ys where y: "y = PList ys"
    and seq: "sequence_err (map (handle_param_typing b) xs) = Inr ys"
    by (auto simp: map_result_Inr)
  have "sequence_err (map (handle_param_typing b) ys) = Inr ys"
    using seq "2.IH" by (rule sequence_err_map_idem)
  then show ?case by (simp add: y)
qed auto

lemma handle_param_typing_no_envelope:
  "handle_param_typing b x = Inr y \<Longrightarrow> \<not> has_envelope y"
proof (induction b x arbitrary: y rule: handle_param_typing.induct)
  case (1 b d)
  show ?case
  proof (cases "list_ex (\<lambda>k. dict_contains d k) type_tags")
    case True
    with "1.prems" have "apply_mapper b d = Inr y" by simp
    then show ?thesis using apply_mapper_scalar[of b d y] by auto
  next
    case False
    let ?f = "\<lambda>(k, v). map_result (Pair k) (handle_param_typing b v)"
    from False "1.prems" obtain d' where y: "y = PDict d'"
      and seq: "sequence_err (map ?f d) = Inr d'"
      by (auto simp: map_result_Inr)
    have keys: "map fst d' = map fst d"
      using seq by (rule sequence_err_items_keys)
    have step: "\<And>kv kv'. kv \<in> set d \<Longrightarrow> ?f kv = Inr kv' \<Longrightarrow> \<not> has_envelope (snd kv')"
    proof -
      fix kv kv' assume mem: "kv \<in> set d" and eq: "?f kv = Inr kv'"
      obtain k v where kv: "kv = (k, v)" by (cases kv)
      from eq kv obtain v' where v': "handle_param_typing b v = Inr v'" and kv': "kv' = (k, v')"
        by (auto simp: map_result_Inr)
      have "\<not> has_envelope v'"
        using "1.IH"[OF False mem kv[symmetric] v'] .
      then show "\<not> has_envelope (snd kv')" by (simp add: kv')
    qed
    have "\<forall>kv' \<in> set d'. \<not> has_envelope (snd kv')"
      using seq step by (rule sequence_err_map_pred)
    moreover have "\<not> list_ex (\<lambda>k. dict_contains d' k) type_tags"
      using False keys by (simp add: dict_contains_def)
    ultimately show ?thesis
      by (auto simp: y list_ex_iff)
  qed
next
  case (2 b xs)
  then obtain ys where y: "y = PList ys"
    and seq: "sequence_err (map (handle_param_typing b) xs) = Inr ys"
    by (auto simp: map_result_Inr)
  have "\<forall>y' \<in> set ys. \<not> has_envelope y'"
    using seq "2.IH" by (rule sequence_err_map_pred)
  then show ?case by (simp add: y list_ex_iff)
qed auto

subsection \<open>\<open>str.lower()\<close> and the words it sends to \<open>true\<close> and \<open>1\<close>\<close>

lemma of_char_lower_char:
  "(of_char (lower_char c) :: nat) =
     (if (65 \<le> (of_char c :: nat) \<and> (of_char c :: nat) \<le> 90) \<or>
         (192 \<le> (of_char c :: nat) \<and> (of_char c :: nat) \<le> 222 \<and> (of_char c :: nat) \<noteq> 215)
      then of_char c + 32 else of_char c)"
  by (simp add: lower_char_def Let_def)

lemma char_eq_code: "of_char d = (n::nat) \<Longrightarrow> (c = d) = (of_char c = n)"
  by auto

lemma lower_char_code:
  assumes "of_char l = (n::nat)"
  shows "lower_char c = l \<longleftrightarrow> (of_char (lower_char c) :: nat) = n"
  using assms by auto

lemma lower_char_t: "lower_char c = CHR ''t'' \<longleftrightarrow> c = CHR ''t'' \<or> c = CHR ''T''"
  unfolding lower_char_code[of "CHR ''t''" 116, simplified]
    char_eq_code[of "CHR ''t''" 116, simplified]
    char_eq_code[of "CHR ''T''" 84, simplified] of_char_lower_char
  by auto

lemma lower_char_r: "lower_char c = CHR ''r'' \<longleftrightarrow> c = CHR ''r'' \<or> c = CHR ''R''"
  unfolding lower_char_code[of "CHR ''r''" 114, simplified]
    char_eq_code[of "CHR ''r''" 114, simplified]
    char_eq_code[of "CHR ''R''" 82, simplified] of_char_lower_char
  by auto

lemma lower_char_u: "lower_char c = CHR ''u'' \<longleftrightarrow> c = CHR ''u'' \<or> c = CHR ''U''"
  unfolding lower_char_code[of "CHR ''u''" 117, simplified]
    char_eq_code[of "CHR ''u''" 117, simplified]
    char_eq_code[of "CHR ''U''" 85, simplified] of_char_lower_char
  by auto

lemma lower_char_e: "lower_char c = CHR ''e'' \<longleftrightarrow> c = CHR ''e'' \<or> c = CHR ''E''"
  unfolding lower_char_code[of "CHR ''e''" 101, simplified]
    char_eq_code[of "CHR ''e''" 101, simplified]
    char_eq_code[of "CHR ''E''" 69, simplified] of_char_lower_char
  by auto

lemma lower_char_1: "lower_char c = CHR ''1'' \<longleftrightarrow> c = CHR ''1''"
  unfolding lower_char_code[of "CHR ''1''" 49, simplified]
    char_eq_code[of "CHR ''1''" 49, simplified] of_char_lower_char
  by auto

lemma map_eq_four:
  "map f s = [w, x, y, z] \<longleftrightarrow>
     (\<exists>a b c d. s = [a, b, c, d] \<and> f a = w \<and> f b = x \<and> f c = y \<and> f d = z)"
  by (auto simp: map_eq_Cons_conv)

text \<open>The strings that \<open>lower()\<close> sends to \<open>true\<close> are its sixteen spellings in capitals and
  small letters, and \<open>1\<close> alone is sent to \<open>1\<close>.\<close>

lemma py_lower_true:
  "py_lower s = ''true'' \<longleftrightarrow>
     (\<exists>a b c d. s = [a, b, c, d] \<and> a \<in> set ''tT'' \<and> b \<in> set ''rR'' \<and>
        c \<in> set ''uU'' \<and> d \<in> set ''eE'')"
  unfolding py_lower_def map_eq_four lower_char_t lower_char_r lower_char_u lower_char_e
  by simp

lemma py_lower_1: "py_lower s = ''1'' \<longleftrightarrow> s = ''1''"
  by (auto simp: py_lower_def map_eq_Cons_conv lower_char_1)

lemma type_bool_general:
  "handle_param_typing b (PDict [(''Type::Bool'', PStr s)]) =
     Inr (PBool (py_lower s = ''true'' \<or> py_lower s = ''1''))"
  by (simp add: type_tags_def dict_contains_def apply_mapper_def first_tag_def TYPE_MAPPERS_def
      dict_getitem_def)

text \<open>The other keys of an envelope are not walked: an envelope that would fail inside one
  of them is converted all the same.\<close>

lemma envelope_other_keys_ignored:
  "handle_param_typing ref_builtins
     (PDict [(''Type::Bool'', PStr ''true''), (''x'', PDict [(''Type::Int'', PStr ''abc'')])])
     = Inr (PBool True)
   \<and> coercible ref_builtins
       (PDict [(''Type::Bool'', PStr ''true''), (''x'', PDict [(''Type::Int'', PStr ''abc'')])])
   \<and> \<not> coercible ref_builtins (PDict [(''Type::Int'', PStr ''abc'')])"
  by (simp add: type_tags_def dict_contains_def apply_mapper_def first_tag_def TYPE_MAPPERS_def
      dict_getitem_def py_lower_true ref_builtins_def ref_int_of_str_def split_sign_def
      strip_number_def is_number_space_def parse_nat_def is_digit_def)

section \<open>The claims about parameter coercion\<close>

text \<open>
  C7. For every string \<open>s\<close>, coercing the envelope \<open>{"Type::Bool": s}\<close> yields the boolean
  that is true exactly when \<open>s.lower()\<close> is \<open>true\<close> or \<open>1\<close>. In particular \<open>True\<close>, \<open>TRUE\<close>
  and \<open>1\<close> yield true, and \<open>false\<close>, \<open>0\<close>, \<open>yes\<close> and the empty string yield false. This
  holds whatever \<open>int\<close> and \<open>float\<close> do (\<open>b\<close> is arbitrary).
\<close>

theorem type_bool_envelope:
  "handle_param_typing b (PDict [(''Type::Bool'', PStr s)]) =
     Inr (PBool (py_lower s = ''true'' \<or> py_lower s = ''1''))
   \<and> handle_param_typing b (PDict [(''Type::Bool'', PStr ''True'')]) = Inr (PBool True)
   \<and> handle_param_typing b (PDict [(''Type::Bool'', PStr ''TRUE'')]) = Inr (PBool True)
   \<and> handle_param_typing b (PDict [(''Type::Bool'', PStr ''1'')]) = Inr (PBool True)
   \<and> handle_param_typing b (PDict [(''Type::Bool'', PStr ''false'')]) = Inr (PBool False)
   \<and> handle_param_typing b (PDict [(''Type::Bool'', PStr ''0'')]) = Inr (PBool False)
   \<and> handle_param_typing b (PDict [(''Type::Bool'', PStr ''yes'')]) = Inr (PBool False)
   \<and> handle_param_typing b (PDict [(''Type::Bool'', PStr [])]) = Inr (PBool False)"
  unfolding type_bool_general by (simp add: py_lower_true py_lower_1)

text \<open>
  C6. Parameter coercion is idempotent: whenever \<open>coerce(x)\<close> is defined (does not raise)
  and returns \<open>y\<close>, \<open>coerce(y)\<close> is defined and returns \<open>y\<close> again; and \<open>y\<close> holds no typed
  envelope at any depth. Equality is equality of the value trees.
\<close>

theorem handle_param_typing_idempotent:
  "handle_param_typing b x = Inr y \<Longrightarrow>
   handle_param_typing b y = Inr y \<and> \<not> has_envelope y"
  using handle_param_typing_fixpoint handle_param_typing_no_envelope by blast

theorem handle_param_typing_idempotent_witness:
  "handle_param_typing ref_builtins
     (PDict [(''a'', PList [PDict [(''Type::Bool'', PStr ''1'')], PStr ''x'']),
             (''b'', PDict [(''Type::Int'', PStr ''42'')])])
     = Inr (PDict [(''a'', PList [PBool True, PStr ''x'']), (''b'', PInt 42)])
   \<and> handle_param_typing ref_builtins
         (PDict [(''a'', PList [PBool True, PStr ''x'']), (''b'', PInt 42)])
       = Inr (PDict [(''a'', PList [PBool True, PStr ''x'']), (''b'', PInt 42)])
   \<and> \<not> has_envelope (PDict [(''a'', PList [PBool True, PStr ''x'']), (''b'', PInt (42::int))]
                         :: binary64 pyval)"
proof -
  have run: "handle_param_typing ref_builtins
     (PDict [(''a'', PList [PDict [(''Type::Bool'', PStr ''1'')], PStr ''x'']),
             (''b'', PDict [(''Type::Int'', PStr ''42'')])])
     = Inr (PDict [(''a'', PList [PBool True, PStr ''x'']), (''b'', PInt 42)])"
    by (simp add: type_tags_def dict_contains_def apply_mapper_def first_tag_def
        TYPE_MAPPERS_def dict_getitem_def py_lower_1 py_lower_true
        ref_builtins_def ref_int_of_str_def split_sign_def strip_number_def is_number_space_def
        parse_nat_def is_digit_def digit_val_def)
  from handle_param_typing_idempotent[OF run] run show ?thesis by simp
qed




section \<open>Properties of the response flattener\<close>

lemma flatten_at_leaf_paths:
  "flatten_at dl key v = map (\<lambda>(ks, x). (key @ concat (map (\<lambda>k. dl @ k) ks), x)) (leaf_paths v)"
proof (induction dl key v rule: flatten_at.induct)
  case (1 dl key d)
  have "concat (map (\<lambda>(k, v). flatten_at dl (key @ dl @ k) v) d)
          = concat (map (\<lambda>(k, v). map (\<lambda>(ks, x). ((key @ dl @ k) @ concat (map (\<lambda>k. dl @ k) ks), x))
                                   (leaf_paths v)) d)"
    by (rule arg_cong[where f = concat], rule map_cong[OF refl]) (use "1.IH" in auto)
  then show ?case
    by (simp add: map_concat comp_def case_prod_unfold)
next
  case (2 dl key xs)
  have "concat (map (\<lambda>(i, v). flatten_at dl (key @ dl @ str_of_nat i) v) (zip [0..<length xs] xs))
          = concat (map (\<lambda>(i, v). map (\<lambda>(ks, x). ((key @ dl @ str_of_nat i) @ concat (map (\<lambda>k. dl @ k) ks), x))
                                   (leaf_paths v)) (zip [0..<length xs] xs))"
    by (rule arg_cong[where f = concat], rule map_cong[OF refl]) (use "2.IH" in auto)
  then show ?case
    by (simp add: map_concat comp_def case_prod_unfold)
qed simp_all

lemma dotted_Cons: "dotted (k # ks) = k @ concat (map (\<lambda>k. ''.'' @ k) ks)"
  by (induction ks arbitrary: k) auto

lemma flat_entries_leaf_paths:
  "flat_entries d ''.'' = map (\<lambda>(ks, x). (dotted ks, x)) (leaf_paths (PDict d))"
  by (simp add: flat_entries_def flatten_at_leaf_paths map_concat comp_def case_prod_unfold
      dotted_Cons)

lemma leaf_paths_reaches:
  "(ks, x) \<in> set (leaf_paths v) \<Longrightarrow> reaches v ks x \<and> \<not> is_container x"
proof (induction v arbitrary: ks x rule: leaf_paths.induct)
  case (1 d)
  from "1.prems" obtain k v ks' where mem: "(k, v) \<in> set d"
    and sub: "(ks', x) \<in> set (leaf_paths v)" and ks: "ks = k # ks'"
    by auto
  from "1.IH"[OF mem refl sub] mem show ?case
    unfolding ks by (auto intro: reaches.key)
next
  case (2 xs)
  from "2.prems" obtain i v ks' where mem: "(i, v) \<in> set (zip [0..<length xs] xs)"
    and sub: "(ks', x) \<in> set (leaf_paths v)" and ks: "ks = str_of_nat i # ks'"
    by auto
  from mem have i: "i < length xs" and v: "v = xs ! i"
    by (auto simp: set_zip)
  from "2.IH"[OF mem refl sub] i v show ?case
    unfolding ks by (auto intro: reaches.index)
qed (auto intro: reaches.here)

lemma reaches_leaf_paths:
  "reaches v ks x \<Longrightarrow> \<not> is_container x \<Longrightarrow> (ks, x) \<in> set (leaf_paths v)"
proof (induction rule: reaches.induct)
  case (here v)
  then show ?case by (cases v) auto
next
  case (key k v d ks x)
  then show ?case by force
next
  case (index i xs ks x)
  from index.hyps(1) have "(i, xs ! i) \<in> set (zip [0..<length xs] xs)"
    unfolding set_zip by (intro CollectI exI[of _ i]) simp
  with index show ?case by force
qed

lemma leaf_paths_iff:
  "(ks, x) \<in> set (leaf_paths v) \<longleftrightarrow> reaches v ks x \<and> \<not> is_container x"
  using leaf_paths_reaches reaches_leaf_paths by blast

lemma response_data_alt:
  "response_data v = map (\<lambda>(k, x). (k, escape_datetime x)) (FlatterDict (as_mapping v) ''.'')"
  by (simp add: response_data_def as_mapping_def)

lemma keys_response_data: "map fst (response_data v) = map fst (FlatterDict (as_mapping v) ''.'')"
  by (simp add: response_data_alt comp_def case_prod_unfold)

lemma response_data_distinct: "distinct (map fst (response_data v))"
  unfolding keys_response_data FlatterDict_def by (rule distinct_dict_update) simp

lemma FlatterDict_subset: "set (FlatterDict d dl) \<subseteq> set (flat_entries d dl)"
  unfolding FlatterDict_def using set_dict_update_subset[of "[]" "flat_entries d dl"] by simp

lemma FlatterDict_keys: "set (map fst (FlatterDict d dl)) = set (map fst (flat_entries d dl))"
  unfolding FlatterDict_def using keys_dict_update[of "[]" "flat_entries d dl"] by simp

lemma escape_datetime_not_container: "is_container (escape_datetime v) = is_container v"
  by (cases v) (simp_all add: escape_datetime_def)

lemma response_data_entry:
  assumes "(k, x) \<in> set (response_data (PDict d))"
  shows "\<exists>ks leaf. ks \<noteq> [] \<and> k = dotted ks \<and> reaches (PDict d) ks leaf
           \<and> \<not> is_container leaf \<and> x = escape_datetime leaf"
proof -
  from assms obtain y where y: "(k, y) \<in> set (FlatterDict d ''.'')" and x: "x = escape_datetime y"
    by (auto simp: response_data_alt as_mapping_def)
  from y have "(k, y) \<in> set (flat_entries d ''.'')"
    using FlatterDict_subset by blast
  then obtain ks where k: "k = dotted ks" and p: "(ks, y) \<in> set (leaf_paths (PDict d))"
    unfolding flat_entries_leaf_paths by (auto simp del: leaf_paths.simps)
  from p have r: "reaches (PDict d) ks y" and l: "\<not> is_container y"
    using leaf_paths_reaches[OF p] by simp_all
  have "ks \<noteq> []"
  proof
    assume "ks = []"
    with r have "y = PDict d" by (auto elim: reaches.cases)
    with l show False by simp
  qed
  with k r l x show ?thesis by blast
qed

lemma response_data_leaves:
  assumes "kx \<in> set (response_data v)"
  shows "\<not> is_container (snd kx)"
proof -
  obtain k x where kx: "kx = (k, x)" by (cases kx)
  have "response_data v = response_data (PDict (as_mapping v))"
    by (simp add: response_data_alt as_mapping_def)
  with assms kx have "(k, x) \<in> set (response_data (PDict (as_mapping v)))" by simp
  from response_data_entry[OF this] show ?thesis
    by (auto simp: kx escape_datetime_not_container)
qed

lemma response_data_key:
  assumes "reaches (PDict d) ks leaf" "\<not> is_container leaf"
  shows "dict_contains (response_data (PDict d)) (dotted ks)"
proof -
  have "(ks, leaf) \<in> set (leaf_paths (PDict d))"
    using assms by (rule reaches_leaf_paths)
  then have "(dotted ks, leaf) \<in> set (flat_entries d ''.'')"
    unfolding flat_entries_leaf_paths by (force simp del: leaf_paths.simps)
  then have "dotted ks \<in> set (map fst (flat_entries d ''.''))"
    by force
  then show ?thesis
    by (simp add: dict_contains_def keys_response_data as_mapping_def FlatterDict_keys
        del: set_map)
qed

lemma response_data_exact:
  assumes "distinct (map (\<lambda>p. dotted (fst p)) (leaf_paths (PDict d)))"
  shows "response_data (PDict d) =
           map (\<lambda>(ks, leaf). (dotted ks, escape_datetime leaf)) (leaf_paths (PDict d))"
proof -
  have "map fst (flat_entries d ''.'') = map (\<lambda>p. dotted (fst p)) (leaf_paths (PDict d))"
    by (simp add: flat_entries_leaf_paths comp_def case_prod_unfold del: leaf_paths.simps)
  with assms have "distinct (map fst (flat_entries d ''.''))" by simp
  then have "FlatterDict d ''.'' = flat_entries d ''.''"
    unfolding FlatterDict_def by (rule dict_update_empty_distinct)
  then show ?thesis
    by (simp add: response_data_alt as_mapping_def flat_entries_leaf_paths comp_def case_prod_unfold
        del: leaf_paths.simps)
qed

lemma response_data_lookup:
  assumes "distinct (map (\<lambda>p. dotted (fst p)) (leaf_paths (PDict d)))"
    and "reaches (PDict d) ks leaf" "\<not> is_container leaf"
  shows "dict_get (response_data (PDict d)) (dotted ks) = Some (escape_datetime leaf)"
proof -
  have "(ks, leaf) \<in> set (leaf_paths (PDict d))"
    using assms(2,3) by (rule reaches_leaf_paths)
  then have "(dotted ks, escape_datetime leaf) \<in> set (response_data (PDict d))"
    unfolding response_data_exact[OF assms(1)] by (force simp del: leaf_paths.simps)
  then show ?thesis
    unfolding dict_get_def using response_data_distinct[of "PDict d"]
    by (simp add: map_of_is_SomeI)
qed

lemma response_data_wrap:
  "(\<forall>d. v \<noteq> PDict d) \<Longrightarrow> response_data v = response_data (PDict [(''Result'', v)])"
  by (cases v) (simp_all add: response_data_def)

lemma str_of_nat_digits: "str_of_nat 0 = ''0''" "str_of_nat (Suc 0) = ''1''"
  by (subst str_of_nat.simps, simp)+

text \<open>Two leaves with one dotted path: the mapping holds the path once.\<close>

lemma response_data_collision:
  "response_data (PDict [(''a.b'', PInt 1), (''a'', PDict [(''b'', PInt 2)])]) = [(''a.b'', PInt 2)]"
  by (simp add: response_data_def FlatterDict_def flat_entries_def dict_update_def
      escape_datetime_def)

subsection \<open>Keys without a dot give different dotted paths\<close>

lemma digit_code: "k < 10 \<Longrightarrow> (of_char (''0123456789'' ! k) :: nat) = 48 + k"
proof -
  assume "k < 10"
  then have "k = 0 \<or> k = 1 \<or> k = 2 \<or> k = 3 \<or> k = 4 \<or> k = 5 \<or> k = 6 \<or> k = 7
    \<or> k = 8 \<or> k = 9"
    by arith
  then show ?thesis by (elim disjE) simp_all
qed

lemma nat_of_str_of_nat: "nat_of_str (str_of_nat n) = n"
proof (induction n rule: str_of_nat.induct)
  case (1 n)
  show ?case
  proof (cases "n < 10")
    case True
    then show ?thesis
      by (subst str_of_nat.simps) (simp add: nat_of_str_def digit_code)
  next
    case False
    then have "nat_of_str (str_of_nat (n div 10)) = n div 10" using 1 by simp
    moreover have "n mod 10 < 10" by simp
    ultimately show ?thesis using False
      by (subst str_of_nat.simps) (simp add: nat_of_str_def digit_code)
  qed
qed

lemma str_of_nat_inj: "str_of_nat m = str_of_nat n \<Longrightarrow> m = n"
  by (metis nat_of_str_of_nat)

lemma str_of_nat_dot_free: "CHR ''.'' \<notin> set (str_of_nat n)"
proof (induction n rule: str_of_nat.induct)
  case (1 n)
  have d: "\<And>k. k < 10 \<Longrightarrow> ''0123456789'' ! k \<noteq> CHR ''.''"
  proof
    fix k :: nat assume "k < 10" and "''0123456789'' ! k = CHR ''.''"
    then have "(48 + k :: nat) = of_char (CHR ''.'')" using digit_code[of k] by simp
    then show False by simp
  qed
  show ?case
  proof (cases "n < 10")
    case True
    then show ?thesis using d[of n] by (subst str_of_nat.simps) auto
  next
    case False
    then show ?thesis using 1 d[of "n mod 10"] by (subst str_of_nat.simps) auto
  qed
qed

lemma leaf_paths_dot_free:
  "plain_keys v \<Longrightarrow> (ks, x) \<in> set (leaf_paths v) \<Longrightarrow> k \<in> set ks \<Longrightarrow> CHR ''.'' \<notin> set k"
proof (induction v arbitrary: ks x rule: leaf_paths.induct)
  case (1 d)
  from "1.prems"(2) obtain k' v ks' where mem: "(k', v) \<in> set d"
    and sub: "(ks', x) \<in> set (leaf_paths v)" and ks: "ks = k' # ks'"
    by auto
  from "1.prems"(1) mem have pk: "plain_keys v" and df: "CHR ''.'' \<notin> set k'"
    by (auto simp: list_all_iff)
  show ?case
  proof (cases "k = k'")
    case True
    with df show ?thesis by simp
  next
    case False
    with "1.prems"(3) ks have "k \<in> set ks'" by simp
    with "1.IH"[OF mem refl pk sub] show ?thesis .
  qed
next
  case (2 xs)
  from "2.prems"(2) obtain i v ks' where mem: "(i, v) \<in> set (zip [0..<length xs] xs)"
    and sub: "(ks', x) \<in> set (leaf_paths v)" and ks: "ks = str_of_nat i # ks'"
    by auto
  from mem have "v \<in> set xs" by (rule set_zip_rightD)
  with "2.prems"(1) have pk: "plain_keys v" by (simp add: list_all_iff)
  show ?case
  proof (cases "k = str_of_nat i")
    case True
    then show ?thesis by (simp add: str_of_nat_dot_free)
  next
    case False
    with "2.prems"(3) ks have "k \<in> set ks'" by simp
    with "2.IH"[OF mem refl pk sub] show ?thesis .
  qed
qed auto

lemma distinct_concat_map:
  assumes "distinct xs"
    and "\<And>x. x \<in> set xs \<Longrightarrow> distinct (f x)"
    and "\<And>x y. x \<in> set xs \<Longrightarrow> y \<in> set xs \<Longrightarrow> x \<noteq> y \<Longrightarrow> set (f x) \<inter> set (f y) = {}"
  shows "distinct (concat (map f xs))"
  using assms
proof (induction xs)
  case Nil
  show ?case by simp
next
  case (Cons a xs)
  have "distinct (concat (map f xs))"
    by (rule Cons.IH) (use Cons.prems in auto)
  moreover have "distinct (f a)" using Cons.prems(2) by simp
  moreover have "set (f a) \<inter> set (concat (map f xs)) = {}"
  proof -
    have "\<And>y. y \<in> set xs \<Longrightarrow> set (f a) \<inter> set (f y) = {}"
      using Cons.prems(1,3) by auto
    then show ?thesis by auto
  qed
  ultimately show ?case by simp
qed

lemma leaf_paths_distinct: "plain_keys v \<Longrightarrow> distinct (map fst (leaf_paths v))"
proof (induction v rule: leaf_paths.induct)
  case (1 d)
  let ?f = "\<lambda>(k, v). map (\<lambda>ks. k # ks) (map fst (leaf_paths v))"
  have eq: "map fst (leaf_paths (PDict d)) = concat (map ?f d)"
    by (simp add: map_concat comp_def case_prod_unfold)
  from "1.prems" have dk: "distinct (map fst d)" by simp
  then have dd: "distinct d" by (rule distinct_map[THEN iffD1, THEN conjunct1])
  have "distinct (concat (map ?f d))"
  proof (rule distinct_concat_map[OF dd])
    fix kv assume mem: "kv \<in> set d"
    obtain k v where kv: "kv = (k, v)" by (cases kv)
    from "1.prems" mem kv have "plain_keys v" by (auto simp: list_all_iff)
    with "1.IH" mem kv have "distinct (map fst (leaf_paths v))" by blast
    then show "distinct (?f kv)" by (simp add: kv distinct_map inj_on_def)
  next
    fix kv kv' assume mem: "kv \<in> set d" "kv' \<in> set d" and ne: "kv \<noteq> kv'"
    obtain k v where kv: "kv = (k, v)" by (cases kv)
    obtain k' v' where kv': "kv' = (k', v')" by (cases kv')
    have "k \<noteq> k'"
    proof
      assume "k = k'"
      with mem kv kv' dk have "v = v'"
        by (metis eq_key_imp_eq_value)
      with \<open>k = k'\<close> kv kv' ne show False by simp
    qed
    then show "set (?f kv) \<inter> set (?f kv') = {}" by (auto simp: kv kv')
  qed
  with eq show ?case by simp
next
  case (2 xs)
  let ?f = "\<lambda>(i, v). map (\<lambda>ks. str_of_nat i # ks) (map fst (leaf_paths v))"
  have eq: "map fst (leaf_paths (PList xs)) = concat (map ?f (zip [0..<length xs] xs))"
    by (simp add: map_concat comp_def case_prod_unfold)
  have dz: "distinct (zip [0..<length xs] xs)"
    by (rule distinct_zipI1) simp
  have "distinct (concat (map ?f (zip [0..<length xs] xs)))"
  proof (rule distinct_concat_map[OF dz])
    fix iv assume mem: "iv \<in> set (zip [0..<length xs] xs)"
    obtain i v where iv: "iv = (i, v)" by (cases iv)
    from mem iv have "v \<in> set xs" by (auto dest: set_zip_rightD)
    with "2.prems" have "plain_keys v" by (simp add: list_all_iff)
    with "2.IH" mem iv have "distinct (map fst (leaf_paths v))" by blast
    then show "distinct (?f iv)" by (simp add: iv distinct_map inj_on_def)
  next
    fix iv iv' assume mem: "iv \<in> set (zip [0..<length xs] xs)" "iv' \<in> set (zip [0..<length xs] xs)"
      and ne: "iv \<noteq> iv'"
    obtain i v where iv: "iv = (i, v)" by (cases iv)
    obtain i' v' where iv': "iv' = (i', v')" by (cases iv')
    from mem iv iv' have "v = xs ! i" "v' = xs ! i'" by (auto simp: set_zip)
    with ne iv iv' have "i \<noteq> i'" by auto
    then have "str_of_nat i \<noteq> str_of_nat i'" using str_of_nat_inj by blast
    then show "set (?f iv) \<inter> set (?f iv') = {}" by (auto simp: iv iv')
  qed
  with eq show ?case by simp
qed simp_all

lemma dot_split:
  assumes "CHR ''.'' \<notin> set k" "CHR ''.'' \<notin> set k'" "k @ CHR ''.'' # a = k' @ CHR ''.'' # b"
  shows "k = k' \<and> a = b"
proof -
  have tw: "\<And>k a. CHR ''.'' \<notin> set k \<Longrightarrow> takeWhile (\<lambda>c. c \<noteq> CHR ''.'') (k @ CHR ''.'' # a) = k"
    by (subst takeWhile_append2) auto
  from assms have "k = k'" using tw[of k a] tw[of k' b] by simp
  with assms(3) show ?thesis by simp
qed

lemma dotted_inj:
  assumes "ks \<noteq> []" "ks' \<noteq> []"
    and "\<forall>k \<in> set ks. CHR ''.'' \<notin> set k" "\<forall>k \<in> set ks'. CHR ''.'' \<notin> set k"
    and "dotted ks = dotted ks'"
  shows "ks = ks'"
  using assms
proof (induction ks arbitrary: ks')
  case Nil
  then show ?case by simp
next
  case (Cons k ks)
  from Cons.prems(2) obtain k' r' where ks': "ks' = k' # r'" by (cases ks') auto
  show ?case
  proof (cases ks)
    case Nil
    show ?thesis
    proof (cases r')
      case Nil
      with Cons.prems(5) \<open>ks = []\<close> ks' show ?thesis by simp
    next
      case (Cons k2 r2)
      with Cons.prems(5) \<open>ks = []\<close> ks' have "k = k' @ CHR ''.'' # dotted (k2 # r2)" by simp
      then have "CHR ''.'' \<in> set k" by simp
      with Cons.prems(3) show ?thesis by simp
    qed
  next
    case (Cons k1 r1)
    note ks = this
    show ?thesis
    proof (cases r')
      case Nil
      with Cons.prems(5) ks ks' have "k' = k @ CHR ''.'' # dotted (k1 # r1)" by simp
      then have "CHR ''.'' \<in> set k'" by simp
      with Cons.prems(4) ks' show ?thesis by simp
    next
      case (Cons k2 r2)
      with Cons.prems(5) ks ks'
      have eq: "k @ CHR ''.'' # dotted ks = k' @ CHR ''.'' # dotted r'" by simp
      from Cons.prems(3,4) ks' have "CHR ''.'' \<notin> set k" "CHR ''.'' \<notin> set k'" by simp_all
      from dot_split[OF this eq] have kk: "k = k'" and dd: "dotted ks = dotted r'" by simp_all
      have "ks = r'"
        using Cons.IH[of r'] ks Cons Cons.prems(3,4) ks' dd by simp
      with kk ks' show ?thesis by simp
    qed
  qed
qed

lemma leaf_paths_dict_nonempty: "(ks, x) \<in> set (leaf_paths (PDict d)) \<Longrightarrow> ks \<noteq> []"
  by auto

lemma plain_keys_distinct_paths:
  assumes "plain_keys (PDict d)"
  shows "distinct (map (\<lambda>p. dotted (fst p)) (leaf_paths (PDict d)))"
proof -
  let ?P = "set (map fst (leaf_paths (PDict d)))"
  have mem: "\<And>ks. ks \<in> ?P \<Longrightarrow> \<exists>x. (ks, x) \<in> set (leaf_paths (PDict d))"
    by (auto simp del: leaf_paths.simps)
  have "inj_on dotted ?P"
  proof (rule inj_onI)
    fix ks ks' assume a: "ks \<in> ?P" "ks' \<in> ?P" and eq: "dotted ks = dotted ks'"
    from mem[OF a(1)] obtain x where x: "(ks, x) \<in> set (leaf_paths (PDict d))" by blast
    from mem[OF a(2)] obtain x' where x': "(ks', x') \<in> set (leaf_paths (PDict d))" by blast
    have 1: "ks \<noteq> []" using x by (rule leaf_paths_dict_nonempty)
    have 2: "ks' \<noteq> []" using x' by (rule leaf_paths_dict_nonempty)
    have 3: "\<forall>k \<in> set ks. CHR ''.'' \<notin> set k"
      using leaf_paths_dot_free[OF assms x] by blast
    have 4: "\<forall>k \<in> set ks'. CHR ''.'' \<notin> set k"
      using leaf_paths_dot_free[OF assms x'] by blast
    from 1 2 3 4 eq show "ks = ks'" by (rule dotted_inj)
  qed
  moreover have "distinct (map fst (leaf_paths (PDict d)))"
    using assms by (rule leaf_paths_distinct)
  ultimately have "distinct (map dotted (map fst (leaf_paths (PDict d))))"
    unfolding distinct_map by blast
  then show ?thesis by (simp only: map_map comp_def)
qed

section \<open>The claim about the response flattener\<close>

text \<open>
  C8. The data of a response. The empty mapping gives the empty mapping,
  \<open>{"a": {"b": {"c": 1}}}\<close> gives \<open>{"a.b.c": 1}\<close>, and \<open>"x"\<close> gives \<open>{"Result": "x"}\<close>: a response
  that is not a mapping gives what the mapping \<open>{"Result": response}\<close> gives. In general the
  result is a mapping (no key twice) none of whose values is a mapping or a list; each of its
  entries is the dotted path of a leaf of the response, reached through mappings and list
  indices, with that leaf as its value (a \<open>datetime\<close> as text); and the dotted path of every
  leaf is a key of it. When the dotted paths of the leaves are pairwise different, which they
  are when no key contains a dot, the result is exactly the list of the leaves under their
  dotted paths, in the order of the response. The wrapping and the walk over the entries are
  the handler's; the flattening itself is \<open>FlatterDict\<close> as the spec describes it.
\<close>

theorem response_flattener:
  "response_data (PDict []) = []
   \<and> response_data (PDict [(''a'', PDict [(''b'', PDict [(''c'', PInt 1)])])]) = [(''a.b.c'', PInt 1)]
   \<and> response_data (PStr ''x'') = [(''Result'', PStr ''x'')]
   \<and> ((\<forall>d. v \<noteq> PDict d) \<longrightarrow> response_data v = response_data (PDict [(''Result'', v)]))
   \<and> distinct (map fst (response_data v))
   \<and> (\<forall>kx \<in> set (response_data v). \<not> is_container (snd kx))
   \<and> (\<forall>k x. (k, x) \<in> set (response_data (PDict d)) \<longrightarrow>
         (\<exists>ks leaf. ks \<noteq> [] \<and> k = dotted ks \<and> reaches (PDict d) ks leaf
            \<and> \<not> is_container leaf \<and> x = escape_datetime leaf))
   \<and> (\<forall>ks leaf. reaches (PDict d) ks leaf \<and> \<not> is_container leaf \<longrightarrow>
         dict_contains (response_data (PDict d)) (dotted ks))
   \<and> (distinct (map (\<lambda>p. dotted (fst p)) (leaf_paths (PDict d))) \<longrightarrow>
         response_data (PDict d)
           = map (\<lambda>(ks, leaf). (dotted ks, escape_datetime leaf)) (leaf_paths (PDict d))
         \<and> (\<forall>ks leaf. reaches (PDict d) ks leaf \<and> \<not> is_container leaf \<longrightarrow>
               dict_get (response_data (PDict d)) (dotted ks) = Some (escape_datetime leaf)))
   \<and> (plain_keys (PDict d) \<longrightarrow>
         response_data (PDict d)
           = map (\<lambda>(ks, leaf). (dotted ks, escape_datetime leaf)) (leaf_paths (PDict d)))"
proof (intro conjI)
  show "response_data (PDict []) = []"
    by (simp add: response_data_def FlatterDict_def flat_entries_def)
  show "response_data (PDict [(''a'', PDict [(''b'', PDict [(''c'', PInt 1)])])]) = [(''a.b.c'', PInt 1)]"
    by (simp add: response_data_def FlatterDict_def flat_entries_def dict_update_def
        escape_datetime_def)
  show "response_data (PStr ''x'') = [(''Result'', PStr ''x'')]"
    by (simp add: response_data_def FlatterDict_def flat_entries_def dict_update_def
        escape_datetime_def)
  show "(\<forall>d. v \<noteq> PDict d) \<longrightarrow> response_data v = response_data (PDict [(''Result'', v)])"
    using response_data_wrap by blast
  show "distinct (map fst (response_data v))"
    by (rule response_data_distinct)
  show "\<forall>kx \<in> set (response_data v). \<not> is_container (snd kx)"
    using response_data_leaves by blast
  show "\<forall>k x. (k, x) \<in> set (response_data (PDict d)) \<longrightarrow>
         (\<exists>ks leaf. ks \<noteq> [] \<and> k = dotted ks \<and> reaches (PDict d) ks leaf
            \<and> \<not> is_container leaf \<and> x = escape_datetime leaf)"
    using response_data_entry by blast
  show "\<forall>ks leaf. reaches (PDict d) ks leaf \<and> \<not> is_container leaf \<longrightarrow>
         dict_contains (response_data (PDict d)) (dotted ks)"
    using response_data_key by blast
  show "distinct (map (\<lambda>p. dotted (fst p)) (leaf_paths (PDict d))) \<longrightarrow>
         response_data (PDict d)
           = map (\<lambda>(ks, leaf). (dotted ks, escape_datetime leaf)) (leaf_paths (PDict d))
         \<and> (\<forall>ks leaf. reaches (PDict d) ks leaf \<and> \<not> is_container leaf \<longrightarrow>
               dict_get (response_data (PDict d)) (dotted ks) = Some (escape_datetime leaf))"
    using response_data_exact response_data_lookup by blast
  show "plain_keys (PDict d) \<longrightarrow>
         response_data (PDict d)
           = map (\<lambda>(ks, leaf). (dotted ks, escape_datetime leaf)) (leaf_paths (PDict d))"
    using response_data_exact plain_keys_distinct_paths by blast
qed

theorem response_flattener_witness:
  "reaches (PDict [(''a'', PDict [(''b'', PInt 1)]),
                   (''l'', PList [PDict [(''t'', PDatetime ''2024-01-02T03:04:05'')], PStr ''u''])]
             :: binary64 pyval)
     [''l'', ''0'', ''t''] (PDatetime ''2024-01-02T03:04:05'')
   \<and> response_data (PDict [(''a'', PDict [(''b'', PInt 1)]),
                   (''l'', PList [PDict [(''t'', PDatetime ''2024-01-02T03:04:05'')], PStr ''u''])]
             :: binary64 pyval)
       = [(''a.b'', PInt 1), (''l.0.t'', PStr ''2024-01-02T03:04:05''), (''l.1'', PStr ''u'')]
   \<and> dict_get (response_data (PDict [(''a'', PDict [(''b'', PInt 1)]),
                   (''l'', PList [PDict [(''t'', PDatetime ''2024-01-02T03:04:05'')], PStr ''u''])]
             :: binary64 pyval)) ''l.0.t''
       = Some (PStr ''2024-01-02T03:04:05'')
   \<and> response_data (PList [PInt 1, PInt 2] :: binary64 pyval)
       = response_data (PDict [(''Result'', PList [PInt 1, PInt 2])])"
proof -
  let ?t = "PDatetime ''2024-01-02T03:04:05'' :: binary64 pyval"
  let ?l = "[PDict [(''t'', ?t)], PStr ''u''] :: binary64 pyval list"
  let ?d = "[(''a'', PDict [(''b'', PInt 1)]), (''l'', PList ?l)] :: binary64 pydict"
  let ?v = "PList [PInt 1, PInt 2] :: binary64 pyval"
  note main = response_flattener[of ?v ?d]
  have "reaches (?l ! 0) [''t''] ?t"
    by (auto intro!: reaches.key reaches.here)
  then have "reaches (PList ?l) (str_of_nat 0 # [''t'']) ?t"
    by (intro reaches.index) simp_all
  then have r: "reaches (PDict ?d) [''l'', ''0'', ''t''] ?t"
    unfolding str_of_nat_digits by (intro reaches.key[where v = "PList ?l"]) simp_all
  have leaf: "\<not> is_container ?t" by simp
  have paths: "leaf_paths (PDict ?d)
                 = [([''a'', ''b''], PInt 1), ([''l'', ''0'', ''t''], ?t), ([''l'', ''1''], PStr ''u'')]"
    by (simp add: upt_rec str_of_nat_digits)
  have dist: "distinct (map (\<lambda>p. dotted (fst p)) (leaf_paths (PDict ?d)))"
    unfolding paths by simp
  from main dist have eq: "response_data (PDict ?d)
      = map (\<lambda>(ks, leaf). (dotted ks, escape_datetime leaf)) (leaf_paths (PDict ?d))"
    by blast
  have val: "response_data (PDict ?d)
      = [(''a.b'', PInt 1), (''l.0.t'', PStr ''2024-01-02T03:04:05''), (''l.1'', PStr ''u'')]"
    unfolding eq paths by (simp add: escape_datetime_def)
  from main dist r leaf
  have "dict_get (response_data (PDict ?d)) (dotted [''l'', ''0'', ''t'']) = Some (escape_datetime ?t)"
    by blast
  then have look: "dict_get (response_data (PDict ?d)) ''l.0.t'' = Some (PStr ''2024-01-02T03:04:05'')"
    by (simp add: escape_datetime_def)
  have nd: "\<forall>d. ?v \<noteq> PDict d" by simp
  from main nd have wrap: "response_data ?v = response_data (PDict [(''Result'', ?v)])"
    by blast
  from r val look wrap show ?thesis by blast
qed

section \<open>The claims about the Action Bridge\<close>

text \<open>
  C9. Kind resolution. If the request type of the event is a key of its resource properties,
  the hook of that key is run. Otherwise, if the request type is \<open>Update\<close> and the properties
  hold a \<open>Create\<close> key, the \<open>Create\<close> hook is run. Otherwise no hook applies.
\<close>

theorem kind_resolution:
  "(dict_contains (ResourceProperties ev) (RequestType ev) \<longrightarrow>
      request_type ev = Some (RequestType ev)
      \<and> handle_custom_resource_request h ev data = run_hook h (RequestType ev) ev data)
   \<and> (\<not> dict_contains (ResourceProperties ev) (RequestType ev)
        \<and> RequestType ev = ''Update'' \<and> dict_contains (ResourceProperties ev) ''Create'' \<longrightarrow>
      request_type ev = Some ''Create''
      \<and> handle_custom_resource_request h ev data = run_hook h ''Create'' ev data)
   \<and> (\<not> dict_contains (ResourceProperties ev) (RequestType ev)
        \<and> \<not> (RequestType ev = ''Update'' \<and> dict_contains (ResourceProperties ev) ''Create'') \<longrightarrow>
      request_type ev = None)"
  by (simp add: request_type_def handle_custom_resource_request_def)

theorem kind_resolution_witness:
  "request_type (example_event ''Create'' [(''Create'', PDict bucket_hook)]) = Some ''Create''
   \<and> request_type (example_event ''Update'' [(''Create'', PDict bucket_hook)]) = Some ''Create''
   \<and> handle_custom_resource_request example_host
         (example_event ''Update'' [(''Create'', PDict bucket_hook)]) []
       = (Inr PNone, [(''Location'', PStr ''/x'')])
   \<and> request_type (example_event ''Delete'' [(''Create'', PDict bucket_hook)]) = None"
proof -
  let ?c = "example_event ''Create'' [(''Create'', PDict bucket_hook)]"
  let ?u = "example_event ''Update'' [(''Create'', PDict bucket_hook)]"
  let ?d = "example_event ''Delete'' [(''Create'', PDict bucket_hook)]"
  have c: "dict_contains (ResourceProperties ?c) (RequestType ?c)"
    and c': "RequestType ?c = ''Create''"
    by (simp_all add: example_event_def dict_contains_def)
  have u: "\<not> dict_contains (ResourceProperties ?u) (RequestType ?u) \<and> RequestType ?u = ''Update''
            \<and> dict_contains (ResourceProperties ?u) ''Create''"
    by (simp add: example_event_def dict_contains_def)
  have d: "\<not> dict_contains (ResourceProperties ?d) (RequestType ?d)
            \<and> \<not> (RequestType ?d = ''Update'' \<and> dict_contains (ResourceProperties ?d) ''Create'')"
    by (simp add: example_event_def dict_contains_def)
  have run: "run_hook example_host ''Create'' ?u [] = (Inr PNone, [(''Location'', PStr ''/x'')])"
    by (simp add: run_hook_def example_event_def dict_getitem_def bucket_hook_def invoke_hook_def
        dict_get_def example_host_def s3_client_def type_tags_def dict_contains_def
        resolve_physical_id_def response_data_def FlatterDict_def flat_entries_def dict_update_def
        escape_datetime_def)
  have rc: "request_type ?c = Some ''Create''"
    using kind_resolution[of ?c example_host "[]"] c c' by metis
  have ru: "request_type ?u = Some ''Create'' \<and>
            handle_custom_resource_request example_host ?u [] = run_hook example_host ''Create'' ?u []"
    using kind_resolution[of ?u example_host "[]"] u by blast
  have rd: "request_type ?d = None"
    using kind_resolution[of ?d example_host "[]"] d by blast
  from rc ru rd run show ?thesis by metis
qed

text \<open>
  C1, as the code has it. A \<open>Create\<close> event whose resource properties hold no \<open>Create\<close> key
  resolves to no hook, and the handler returns \<open>None\<close> without raising and without touching
  \<open>cfn_resource.Data\<close>: a hook is optional for every request type, and only an \<open>Update\<close>
  without a hook is given a new physical id.
\<close>

theorem create_without_hook_returns_none:
  "RequestType ev = ''Create'' \<Longrightarrow> \<not> dict_contains (ResourceProperties ev) ''Create'' \<Longrightarrow>
   request_type ev = None \<and> handle_custom_resource_request h ev data = (Inr PNone, data)"
  by (simp add: request_type_def handle_custom_resource_request_def)

theorem create_without_hook_returns_none_witness:
  "handle_custom_resource_request example_host
     (example_event ''Create'' [(''ServiceToken'', PStr ''arn:aws:lambda:bridge'')]) []
   = (Inr PNone, [])"
proof -
  let ?e = "example_event ''Create'' [(''ServiceToken'', PStr ''arn:aws:lambda:bridge'')]"
  have "RequestType ?e = ''Create''" and "\<not> dict_contains (ResourceProperties ?e) ''Create''"
    by (simp_all add: example_event_def dict_contains_def)
  then show ?thesis
    using create_without_hook_returns_none[of ?e example_host "[]"] by blast
qed

text \<open>The claim as the spec states it (such a request fails with a configuration error)
  is false: a \<open>Create\<close> event for a resource that declares a \<open>Delete\<close> hook only succeeds
  with \<open>None\<close>.\<close>

theorem create_without_hook_counterexample:
  "handle_custom_resource_request example_host
     (example_event ''Create'' [(''Delete'', PDict bucket_hook)]) [] = (Inr PNone, [])"
  by (simp add: request_type_def handle_custom_resource_request_def example_event_def dict_contains_def)

text \<open>
  C5. For the effective kind \<open>Create\<close> or \<open>Update\<close>: when the Boto3 call has returned, the
  hook holds a \<open>PhysicalResourceId\<close> expression (one that is evaluated, that is, not empty),
  and \<open>jmespath.search\<close> on the raw response returns a result that is absent (\<open>None\<close>, empty
  or otherwise falsy), the handler raises \<open>ValueError\<close>, and its message says that the
  resource will not be rolled back and must be deleted manually. \<open>cfn_resource.Data\<close> already
  holds the flattened response then.
\<close>

theorem identity_extraction_failure:
  assumes "request_type ev = Some rt"
    and "rt = ''Create'' \<or> rt = ''Update''"
    and "dict_get (ResourceProperties ev) rt = Some hook_properties"
    and "invoke_hook h hook_properties = Inr boto_res"
    and "py_get hook_properties ''PhysicalResourceId'' = Inr (Some expression)"
    and "truthy (python h) expression"
    and "search h expression boto_res = Inr physical_id"
    and "\<not> truthy (python h) physical_id"
  shows "handle_custom_resource_request h ev data =
           (Inl (ValueError (''The resource was successfully '' @ py_lower rt
                   @ ''d, but the JMESPath expression did not return any''
                   @ ''result. Said resource will not be roll-backed and must be deleted manually.'')),
            response_data boto_res)"
  using assms
  by (auto simp: handle_custom_resource_request_def run_hook_def dict_getitem_def dict_get_def
      resolve_physical_id_def no_result_message_def)

theorem identity_extraction_failure_witness:
  "handle_custom_resource_request example_host
     (example_event ''Create''
        [(''Create'', PDict (bucket_hook @ [(''PhysicalResourceId'', PStr ''BucketArn'')]))]) []
   = (Inl (ValueError (''The resource was successfully created, but the JMESPath expression ''
             @ ''did not return anyresult. Said resource will not be roll-backed and must be ''
             @ ''deleted manually.'')),
      [(''Location'', PStr ''/x'')])"
proof -
  let ?hook = "PDict (bucket_hook @ [(''PhysicalResourceId'', PStr ''BucketArn'')]) :: binary64 pyval"
  let ?e = "example_event ''Create'' [(''Create'', ?hook)]"
  let ?res = "PDict [(''Location'', PStr ''/x'')] :: binary64 pyval"
  have 1: "request_type ?e = Some ''Create''"
    by (simp add: request_type_def example_event_def dict_contains_def)
  have 2: "''Create'' = ''Create'' \<or> ''Create'' = ''Update''" by simp
  have 3: "dict_get (ResourceProperties ?e) ''Create'' = Some ?hook"
    by (simp add: example_event_def dict_get_def)
  have 4: "invoke_hook example_host ?hook = Inr ?res"
    by (simp add: bucket_hook_def invoke_hook_def dict_getitem_def dict_get_def example_host_def
        s3_client_def type_tags_def dict_contains_def)
  have 5: "py_get ?hook ''PhysicalResourceId'' = Inr (Some (PStr ''BucketArn''))"
    by (simp add: bucket_hook_def dict_get_def)
  have 6: "truthy (python example_host) (PStr ''BucketArn'')" by simp
  have 7: "search example_host (PStr ''BucketArn'') ?res = Inr PNone"
    by (simp add: example_host_def example_search_def is_identifier_def is_letter_def
        is_digit_def)
  have 8: "\<not> truthy (python example_host) PNone" by simp
  have data: "response_data ?res = [(''Location'', PStr ''/x'')]"
    by (simp add: response_data_def FlatterDict_def flat_entries_def dict_update_def
        escape_datetime_def)
  have low: "py_lower ''Create'' = ''create''"
    by code_simp
  from identity_extraction_failure[OF 1 2 3 4 5 6 7 8, of "[]"] data low
  show ?thesis by simp
qed

section \<open>Properties of the Resource-Type Rewriter\<close>

lemma dict_set_present:
  "distinct (map fst d) \<Longrightarrow> k \<in> set (map fst d) \<Longrightarrow>
   dict_set d k v = map (\<lambda>kv. if fst kv = k then (k, v) else kv) d"
proof (induction d k v rule: dict_set.induct)
  case (1 k v)
  then show ?case by simp
next
  case (2 k' v' d k v)
  show ?case
  proof (cases "k' = k")
    case True
    with "2.prems" have "k \<notin> fst ` set d" by simp
    then have "map (\<lambda>kv. if fst kv = k then (k, v) else kv) d = d"
      by (induction d) auto
    with True show ?thesis by simp
  next
    case False
    with 2 show ?thesis by simp
  qed
qed

lemma dict_update_distinct:
  "distinct (map fst extra) \<Longrightarrow> distinct (map fst base) \<Longrightarrow>
   dict_update base extra =
     map (overridden extra) base @ filter (\<lambda>kv. fst kv \<notin> set (map fst base)) extra"
proof (induction extra arbitrary: base)
  case Nil
  show ?case by (simp add: dict_update_def overridden_def)
next
  case (Cons kv extra)
  obtain k v where kv: "kv = (k, v)" by (cases kv)
  from Cons.prems(1) kv have dx: "distinct (map fst extra)" and kx: "k \<notin> set (map fst extra)"
    by auto
  from kx have nk: "map_of extra k = None" by (simp add: map_of_eq_None_iff)
  have step: "dict_update base (kv # extra) = dict_update (dict_set base k v) extra"
    by (simp add: dict_update_def kv)
  show ?case
  proof (cases "k \<in> set (map fst base)")
    case True
    have db: "distinct (map fst (dict_set base k v))"
      using True Cons.prems(2) by (simp add: keys_dict_set)
    have ks: "set (map fst (dict_set base k v)) = set (map fst base)"
      using True by (simp add: keys_dict_set)
    have "map (overridden extra) (dict_set base k v) = map (overridden (kv # extra)) base"
      using nk by (auto simp: dict_set_present[OF Cons.prems(2) True] overridden_def kv)
    moreover have "filter (\<lambda>kv. fst kv \<notin> set (map fst base)) (kv # extra)
                   = filter (\<lambda>kv. fst kv \<notin> set (map fst base)) extra"
      using True by (simp add: kv)
    ultimately show ?thesis
      unfolding step Cons.IH[OF dx db] ks by simp
  next
    case False
    have db: "distinct (map fst (dict_set base k v))"
      using False Cons.prems(2) by (simp add: keys_dict_set)
    have "map (overridden extra) base = map (overridden (kv # extra)) base"
      using False by (auto simp: overridden_def kv)
    moreover have "overridden extra (k, v) = (k, v)"
      using nk by (simp add: overridden_def)
    moreover have "filter (\<lambda>kv. fst kv \<notin> set (map fst (base @ [(k, v)]))) extra
                   = filter (\<lambda>kv. fst kv \<notin> set (map fst base)) extra"
      using kx by (auto intro!: filter_cong)
    ultimately show ?thesis
      unfolding step using Cons.IH[OF dx db] False
      by (simp add: dict_set_absent kv)
  qed
qed

lemma service_token_first:
  assumes "distinct (map fst props)"
  shows "dict_update [(''ServiceToken'', token)] props =
           (''ServiceToken'', case map_of props ''ServiceToken'' of None \<Rightarrow> token | Some v \<Rightarrow> v)
             # filter (\<lambda>kv. fst kv \<noteq> ''ServiceToken'') props"
  using dict_update_distinct[OF assms, of "[(''ServiceToken'', token)]"]
  by (cases "map_of props ''ServiceToken''") (simp_all add: overridden_def)

lemma map_of_Some_contains: "map_of d k = Some v \<Longrightarrow> dict_contains d k"
  by (auto simp: dict_contains_def dest: map_of_SomeD intro: rev_image_eqI)

lemma replace_resource_matching:
  assumes "dict_get resource_def ''Type'' = Some (PStr t)"
    and "startswith t prefix"
    and "dict_get tokens (lstrip t prefix) = Some token"
    and "dict_get resource_def ''Properties'' = Some (PDict props)"
  shows "replace_resource prefix tokens resource_def =
           Inr (dict_set (dict_set resource_def ''Type'' (PStr CUSTOM_RESOURCE)) ''Properties''
                  (PDict (dict_update [(''ServiceToken'', token)] props)))"
  using assms map_of_Some_contains[of resource_def "''Type''"]
    map_of_Some_contains[of tokens "lstrip t prefix"]
  by (simp add: replace_resource_def matches_def custom_resource_def dict_get_def dict_getitem_def)

lemma replace_resource_no_type:
  "\<not> dict_contains resource_def ''Type'' \<Longrightarrow>
   replace_resource prefix tokens resource_def = Inr resource_def"
  by (simp add: replace_resource_def matches_def)

lemma replace_fragment_resources_single:
  "replace_fragment_resources prefix tokens [(rid, resource_def)] =
     map_result (\<lambda>r. [(rid, r)]) (replace_resource prefix tokens resource_def)"
  by (cases "replace_resource prefix tokens resource_def")
     (simp_all add: replace_fragment_resources_def map_result_def)

lemma lstrip_eq_removeprefix:
  assumes "startswith t p"
    and "drop (length p) t = [] \<or> hd (drop (length p) t) \<notin> set p"
  shows "lstrip t p = removeprefix t p"
proof -
  from assms(1) have t: "t = p @ drop (length p) t"
    by (metis append_take_drop_id startswith_def)
  have "dropWhile (\<lambda>c. c \<in> set p) (p @ drop (length p) t)
          = dropWhile (\<lambda>c. c \<in> set p) (drop (length p) t)"
    by (rule dropWhile_append2) simp
  also have "\<dots> = drop (length p) t"
    using assms(2) by (cases "drop (length p) t") auto
  finally show ?thesis
    using assms(1) t by (simp add: lstrip_def removeprefix_def)
qed

lemma replace_fragment_resources_unchanged:
  assumes "\<forall>(rid, resource_def) \<in> set resources.
             replace_resource prefix tokens resource_def = Inr resource_def"
  shows "replace_fragment_resources prefix tokens resources = Inr resources"
proof -
  have "map (\<lambda>(rid, resource_def).
               map_result (Pair rid) (replace_resource prefix tokens resource_def)) resources
          = map Inr resources"
    using assms by (induction resources) auto
  then show ?thesis
    unfolding replace_fragment_resources_def by (simp only: sequence_err_map_Inr)
qed

lemma replace_resource_not_matching:
  "matches prefix tokens resource_def = Inr False \<Longrightarrow>
   replace_resource prefix tokens resource_def = Inr resource_def"
  by (simp add: replace_resource_def)

lemma replace_resource_literal_prefix:
  assumes "dict_get resource_def ''Type'' = Some (PStr t)"
    and "startswith t prefix"
    and "removeprefix t prefix = [] \<or> hd (removeprefix t prefix) \<notin> set prefix"
    and "dict_get tokens (removeprefix t prefix) = Some token"
    and "dict_get resource_def ''Properties'' = Some (PDict props)"
    and "distinct (map fst props)"
    and "\<not> dict_contains props ''ServiceToken''"
  shows "replace_resource prefix tokens resource_def =
           Inr (dict_set (dict_set resource_def ''Type'' (PStr CUSTOM_RESOURCE)) ''Properties''
                  (PDict ((''ServiceToken'', token) # props)))"
proof -
  have rp: "removeprefix t prefix = drop (length prefix) t"
    using assms(2) by (simp add: removeprefix_def)
  have ls: "lstrip t prefix = removeprefix t prefix"
    using lstrip_eq_removeprefix[OF assms(2)] assms(3) by (simp add: rp)
  have none: "map_of props ''ServiceToken'' = None"
    using assms(7) by (simp add: dict_contains_def map_of_eq_None_iff)
  have keep: "filter (\<lambda>kv. fst kv \<noteq> ''ServiceToken'') props = props"
    using assms(7) by (force simp: dict_contains_def intro!: filter_True)
  have "dict_update [(''ServiceToken'', token)] props = (''ServiceToken'', token) # props"
    using service_token_first[OF assms(6), of token] none keep by simp
  then show ?thesis
    using replace_resource_matching[OF assms(1) assms(2) _ assms(5), of tokens token] assms(4) ls
    by simp
qed

section \<open>The claims about the Resource-Type Rewriter\<close>

text \<open>
  C10. A matching entry whose own \<open>Properties\<close> hold a \<open>ServiceToken\<close> key keeps that value:
  the entry is rewritten, its type becomes the custom resource type, and its properties are
  \<open>ServiceToken\<close> first, with the value of the original property and not the token of the
  token map, followed by the other original properties in their order.
\<close>

theorem service_token_overridden:
  assumes "dict_get resource_def ''Type'' = Some (PStr t)"
    and "startswith t prefix"
    and "dict_get tokens (lstrip t prefix) = Some token"
    and "dict_get resource_def ''Properties'' = Some (PDict props)"
    and "distinct (map fst props)"
    and "dict_get props ''ServiceToken'' = Some own"
  shows "let props' = (''ServiceToken'', own) # filter (\<lambda>kv. fst kv \<noteq> ''ServiceToken'') props;
             out = dict_set (dict_set resource_def ''Type'' (PStr CUSTOM_RESOURCE))
                     ''Properties'' (PDict props')
         in replace_resource prefix tokens resource_def = Inr out
            \<and> replace_fragment_resources prefix tokens [(rid, resource_def)] = Inr [(rid, out)]
            \<and> dict_get out ''Type'' = Some (PStr CUSTOM_RESOURCE)
            \<and> dict_get out ''Properties'' = Some (PDict props')
            \<and> dict_get props' ''ServiceToken'' = Some own"
proof -
  let ?props = "(''ServiceToken'', own) # filter (\<lambda>kv. fst kv \<noteq> ''ServiceToken'') props"
  let ?out = "dict_set (dict_set resource_def ''Type'' (PStr CUSTOM_RESOURCE)) ''Properties''
                (PDict ?props)"
  have upd: "dict_update [(''ServiceToken'', token)] props = ?props"
    using service_token_first[OF assms(5), of token] assms(6) by (simp add: dict_get_def)
  have r: "replace_resource prefix tokens resource_def = Inr ?out"
    using replace_resource_matching[OF assms(1-4)] upd by simp
  have "replace_fragment_resources prefix tokens [(rid, resource_def)] = Inr [(rid, ?out)]"
    by (simp add: replace_fragment_resources_single r)
  moreover have "dict_get ?out ''Type'' = Some (PStr CUSTOM_RESOURCE)"
    by (simp add: dict_get_def map_of_dict_set)
  moreover have "dict_get ?out ''Properties'' = Some (PDict ?props)"
    by (simp add: dict_get_def map_of_dict_set)
  moreover have "dict_get ?props ''ServiceToken'' = Some own"
    by (simp add: dict_get_def)
  ultimately show ?thesis using r by (simp add: Let_def)
qed

theorem service_token_overridden_witness:
  "replace_fragment_resources ''MyCustom::'' [(''TypeA'', PStr ''arn:aws:lambda:function-a'')]
     [(''R'', [(''Type'', PStr ''MyCustom::TypeA''),
               (''Properties'', PDict [(''P'', PStr ''1''), (''ServiceToken'', PStr ''mine''),
                                       (''Q'', PStr ''2'')])])]
   = Inr [(''R'', [(''Type'', PStr ''AWS::CloudFormation::CustomResource''),
                   (''Properties'', PDict [(''ServiceToken'', PStr ''mine''),
                                           (''P'', PStr ''1''), (''Q'', PStr ''2'')])])
          :: string \<times> binary64 pydict]"
proof -
  let ?props = "[(''P'', PStr ''1''), (''ServiceToken'', PStr ''mine''), (''Q'', PStr ''2'')] :: binary64 pydict"
  let ?def = "[(''Type'', PStr ''MyCustom::TypeA''), (''Properties'', PDict ?props)] :: binary64 pydict"
  let ?tokens = "[(''TypeA'', PStr ''arn:aws:lambda:function-a'')] :: binary64 pydict"
  have 1: "dict_get ?def ''Type'' = Some (PStr ''MyCustom::TypeA'')" by (simp add: dict_get_def)
  have 2: "startswith ''MyCustom::TypeA'' ''MyCustom::''" by (simp add: startswith_def)
  have 3: "dict_get ?tokens (lstrip ''MyCustom::TypeA'' ''MyCustom::'')
             = Some (PStr ''arn:aws:lambda:function-a'')"
    by (simp add: dict_get_def lstrip_def)
  have 4: "dict_get ?def ''Properties'' = Some (PDict ?props)" by (simp add: dict_get_def)
  have 5: "distinct (map fst ?props)" by simp
  have 6: "dict_get ?props ''ServiceToken'' = Some (PStr ''mine'')" by (simp add: dict_get_def)
  from service_token_overridden[OF 1 2 3 4 5 6, of "''R''"]
  show ?thesis by (simp add: Let_def CUSTOM_RESOURCE_def)
qed

text \<open>
  C3 does not hold of the code. The suffix looked up in the token map is
  \<open>Type.lstrip(prefix)\<close>, which removes every leading character that occurs in the prefix, not
  the prefix as a literal. With the prefix \<open>MyCustom::\<close> the type \<open>MyCustom::Machine\<close> has the
  remainder \<open>Machine\<close>, but \<open>lstrip\<close> also eats the \<open>M\<close>; \<open>achine\<close> is no key of the token
  map, and the entry is returned as it was instead of being rewritten. Where the remainder
  does not begin with a character of the prefix the two agree (\<open>lstrip_eq_removeprefix\<close>), and
  the entry is rewritten as the claim says (\<open>replace_resource_literal_prefix\<close>).
\<close>

theorem lstrip_eats_the_suffix:
  "removeprefix ''MyCustom::Machine'' ''MyCustom::'' = ''Machine''
   \<and> lstrip ''MyCustom::Machine'' ''MyCustom::'' = ''achine''
   \<and> replace_fragment_resources ''MyCustom::'' [(''Machine'', PStr ''arn:aws:lambda:machine'')]
        [(''R'', [(''Type'', PStr ''MyCustom::Machine''),
                  (''Properties'', PDict [(''Property1'', PStr ''Value1'')])])]
      = Inr [(''R'', [(''Type'', PStr ''MyCustom::Machine''),
                      (''Properties'', PDict [(''Property1'', PStr ''Value1'')])])
             :: string \<times> binary64 pydict]"
  by (simp add: removeprefix_def startswith_def lstrip_def replace_fragment_resources_def
      replace_resource_def matches_def dict_contains_def dict_getitem_def)

text \<open>
  C4 does not hold of the code. An entry with no \<open>Type\<close> is returned unchanged
  (\<open>replace_resource_no_type\<close>), and so is any entry that does not match
  (\<open>replace_resource_not_matching\<close>); but a matching entry with no \<open>Properties\<close> makes the
  rewrite raise \<open>TypeError\<close>: \<open>resource_def.get('Properties')\<close> is \<open>None\<close>, and \<open>**None\<close>
  is not a mapping.
\<close>

theorem absent_properties_raise:
  "replace_fragment_resources ''MyCustom::'' [(''TypeA'', PStr ''arn:aws:lambda:function-a'')]
     [(''R'', [(''Type'', PStr ''MyCustom::TypeA'')])]
   = (Inl TypeError :: py_error + (string \<times> binary64 pydict) list)"
  by (simp add: startswith_def lstrip_def replace_fragment_resources_def
      replace_resource_def matches_def custom_resource_def dict_contains_def dict_getitem_def
      dict_get_def)

end
